theory Spec2Isabelle
  imports Complex_Main
begin

section \<open>Data model\<close>

text \<open>
  The enumerations of the program. \<open>UnitType_value\<close> is the \<open>value\<close> of a
  \<open>UnitType\<close> member, the index into the damage and repair tables.
\<close>

datatype UnitType = AI | Tech | Virus | Program | Firewall

datatype ActionType = MOVE | ATTACK | REPAIR | SUICIDE

datatype Player = Attacker | Defender

text \<open>The Python exceptions that the modelled code can raise.\<close>

datatype error = NameError | AttributeError | UnboundLocalError | IndexError

fun Player_next :: "Player \<Rightarrow> Player" where
  "Player_next Attacker = Defender"
| "Player_next Defender = Attacker"

fun UnitType_value :: "UnitType \<Rightarrow> nat" where
  "UnitType_value AI = 0"
| "UnitType_value Tech = 1"
| "UnitType_value Virus = 2"
| "UnitType_value Program = 3"
| "UnitType_value Firewall = 4"

definition MAX_HEURISTIC_SCORE :: int where
  "MAX_HEURISTIC_SCORE = 2000000000"

definition MIN_HEURISTIC_SCORE :: int where
  "MIN_HEURISTIC_SCORE = - 2000000000"

subsection \<open>Units\<close>

record Unit =
  player :: Player
  type :: UnitType
  health :: int

definition damage_table :: "int list list" where
  "damage_table =
    [[3, 3, 3, 3, 1],
     [1, 1, 6, 1, 1],
     [9, 6, 1, 6, 1],
     [3, 3, 3, 3, 1],
     [1, 1, 1, 1, 1]]"

definition repair_table :: "int list list" where
  "repair_table =
    [[0, 1, 1, 0, 0],
     [3, 0, 0, 3, 3],
     [0, 0, 0, 0, 0],
     [0, 0, 0, 0, 0],
     [0, 0, 0, 0, 0]]"

definition is_alive :: "Unit \<Rightarrow> bool" where
  "is_alive u = (health u > 0)"

text \<open>\<open>Unit.mod_health\<close>: add the delta, then clamp to \<open>[0, 9]\<close>.\<close>

definition Unit_mod_health :: "Unit \<Rightarrow> int \<Rightarrow> Unit" where
  "Unit_mod_health u health_delta =
    (let h = health u + health_delta
     in u\<lparr>health := (if h < 0 then 0 else if h > 9 then 9 else h)\<rparr>)"

definition damage_amount :: "Unit \<Rightarrow> Unit \<Rightarrow> int" where
  "damage_amount u target =
    (let amount = damage_table ! UnitType_value (type u) ! UnitType_value (type target)
     in if health target - amount < 0 then health target else amount)"

definition repair_amount :: "Unit \<Rightarrow> Unit \<Rightarrow> int" where
  "repair_amount u target =
    (let amount = repair_table ! UnitType_value (type u) ! UnitType_value (type target)
     in if health target + amount > 9 then 9 - health target else amount)"

subsection \<open>Coordinates\<close>

record Coord =
  row :: int
  col :: int

record CoordPair =
  src :: Coord
  dst :: Coord

text \<open>Python's \<open>range(a, b)\<close> over the integers.\<close>

definition py_range :: "int \<Rightarrow> int \<Rightarrow> int list" where
  "py_range a b = [a..b - 1]"

definition iter_range :: "Coord \<Rightarrow> int \<Rightarrow> Coord list" where
  "iter_range c d =
    concat (map (\<lambda>r. map (\<lambda>k. \<lparr>row = r, col = k\<rparr>) (py_range (col c - d) (col c + 1 + d)))
                (py_range (row c - d) (row c + 1 + d)))"

definition iter_adjacent :: "Coord \<Rightarrow> Coord list" where
  "iter_adjacent c =
    [\<lparr>row = row c - 1, col = col c\<rparr>,
     \<lparr>row = row c, col = col c - 1\<rparr>,
     \<lparr>row = row c + 1, col = col c\<rparr>,
     \<lparr>row = row c, col = col c + 1\<rparr>]"

definition iter_rectangle :: "CoordPair \<Rightarrow> Coord list" where
  "iter_rectangle cp =
    concat (map (\<lambda>r. map (\<lambda>k. \<lparr>row = r, col = k\<rparr>) (py_range (col (src cp)) (col (dst cp) + 1)))
                (py_range (row (src cp)) (row (dst cp) + 1)))"

definition from_dim :: "int \<Rightarrow> CoordPair" where
  "from_dim d = \<lparr>src = \<lparr>row = 0, col = 0\<rparr>, dst = \<lparr>row = d - 1, col = d - 1\<rparr>\<rparr>"

subsection \<open>Game state\<close>

text \<open>
  Of \<open>Options\<close> only the fields read by the modelled functions are kept; \<open>Stats\<close> is
  only written for reporting and is left out. The board is the list of rows of the
  source. Every board access of the source is guarded by \<open>is_valid_coord\<close>; the
  constructor builds a \<open>dim \<times> dim\<close> board and nothing changes its shape, which is the
  invariant \<open>wf_board\<close> below.
\<close>

record Options =
  dim :: int
  max_time :: "real option"
  alpha_beta :: bool
  max_turns :: "int option"

record Game =
  board :: "Unit option list list"
  next_player :: Player
  turns_played :: int
  options :: Options
  attacker_has_ai :: bool
  defender_has_ai :: bool

definition is_valid_coord :: "Game \<Rightarrow> Coord \<Rightarrow> bool" where
  "is_valid_coord g coord =
    (let d = dim (options g)
     in if row coord < 0 \<or> row coord \<ge> d \<or> col coord < 0 \<or> col coord \<ge> d then False else True)"

definition get :: "Game \<Rightarrow> Coord \<Rightarrow> Unit option" where
  "get g coord =
    (if is_valid_coord g coord then board g ! nat (row coord) ! nat (col coord) else None)"

definition set_cell :: "Game \<Rightarrow> Coord \<Rightarrow> Unit option \<Rightarrow> Game" where
  "set_cell g coord unit =
    (if is_valid_coord g coord
     then g\<lparr>board := (board g)[nat (row coord) := (board g ! nat (row coord))[nat (col coord) := unit]]\<rparr>
     else g)"

definition remove_dead :: "Game \<Rightarrow> Coord \<Rightarrow> Game" where
  "remove_dead g coord =
    (case get g coord of
       None \<Rightarrow> g
     | Some unit \<Rightarrow>
         if \<not> is_alive unit then
           (let g1 = set_cell g coord None
            in if type unit = AI then
                 (if player unit = Attacker then g1\<lparr>attacker_has_ai := False\<rparr>
                  else g1\<lparr>defender_has_ai := False\<rparr>)
               else g1)
         else g)"

definition mod_health :: "Game \<Rightarrow> Coord \<Rightarrow> int \<Rightarrow> Game" where
  "mod_health g coord health_delta =
    (case get g coord of
       None \<Rightarrow> g
     | Some target \<Rightarrow> remove_dead (set_cell g coord (Some (Unit_mod_health target health_delta))) coord)"

definition next_turn :: "Game \<Rightarrow> Game" where
  "next_turn g = g\<lparr>next_player := Player_next (next_player g), turns_played := turns_played g + 1\<rparr>"

definition has_winner :: "Game \<Rightarrow> Player option" where
  "has_winner g =
    (if max_turns (options g) \<noteq> None \<and> turns_played g \<ge> the (max_turns (options g)) then Some Defender
     else if attacker_has_ai g then
       (if defender_has_ai g then None else Some Attacker)
     else Some Defender)"

definition is_finished :: "Game \<Rightarrow> bool" where
  "is_finished g = (has_winner g \<noteq> None)"

section \<open>Move classification\<close>

text \<open>
  \<open>determine_action\<close> reads \<open>src_unit.player\<close> when the two coordinates differ and the
  destination holds a unit; with no unit at the source that read raises
  \<open>AttributeError\<close>.
\<close>

definition determine_action :: "Game \<Rightarrow> CoordPair \<Rightarrow> error + ActionType" where
  "determine_action g coords =
    (let src_unit = get g (src coords); dst_unit = get g (dst coords)
     in if src coords = dst coords then Inr SUICIDE
        else (case dst_unit of
                None \<Rightarrow> Inr MOVE
              | Some du \<Rightarrow>
                  (case src_unit of
                     None \<Rightarrow> Inl AttributeError
                   | Some su \<Rightarrow> if player su = player du then Inr REPAIR else Inr ATTACK)))"

section \<open>Move legality\<close>

text \<open>
  The loop over \<open>coords.src.iter_adjacent()\<close> at the end of
  \<open>unit_movement_restriction\<close>: the first adjacent unit of the other player makes
  the function return \<open>False\<close>.
\<close>

fun adjacent_enemy_loop :: "Game \<Rightarrow> Unit \<Rightarrow> Coord list \<Rightarrow> bool" where
  "adjacent_enemy_loop g src_unit [] = True"
| "adjacent_enemy_loop g src_unit (coord # rest) =
    (case get g coord of
       None \<Rightarrow> adjacent_enemy_loop g src_unit rest
     | Some unit \<Rightarrow>
         if type src_unit \<in> set [AI, Firewall, Program] \<and> player src_unit \<noteq> player unit then False
         else adjacent_enemy_loop g src_unit rest)"

definition unit_movement_restriction :: "Game \<Rightarrow> CoordPair \<Rightarrow> error + bool" where
  "unit_movement_restriction g coords =
    (case get g (src coords) of
       None \<Rightarrow> Inl AttributeError
     | Some src_unit \<Rightarrow>
         (let row_dst = row (dst coords) - row (src coords);
              col_dst = col (dst coords) - col (src coords)
          in if type src_unit \<in> set [AI, Firewall, Program] then
               (if (if player src_unit = Attacker then row_dst > 0 \<or> col_dst > 0
                    else row_dst < 0 \<or> col_dst < 0)
                then Inr False
                else Inr (adjacent_enemy_loop g src_unit (iter_adjacent (src coords))))
             else Inr True))"

text \<open>
  The loop of \<open>is_valid_move\<close> over the cells adjacent to the source: at the first one
  equal to the destination the function returns; when none is, it returns \<open>False\<close>.
\<close>

fun is_valid_move_loop :: "Game \<Rightarrow> CoordPair \<Rightarrow> Unit \<Rightarrow> Coord list \<Rightarrow> error + bool" where
  "is_valid_move_loop g coords src_unit [] = Inr False"
| "is_valid_move_loop g coords src_unit (coord # rest) =
    (if coord = dst coords then
       (case get g (dst coords) of
          Some dst_unit \<Rightarrow>
            (case determine_action g coords of
               Inl e \<Rightarrow> Inl e
             | Inr action \<Rightarrow>
                 if action = REPAIR then
                   (let repair = repair_table ! UnitType_value (type src_unit) ! UnitType_value (type dst_unit)
                    in if repair = 0 then Inr False
                       else if health dst_unit = 9 then Inr False
                       else Inr True)
                 else Inr True)
        | None \<Rightarrow> unit_movement_restriction g coords)
     else is_valid_move_loop g coords src_unit rest)"

definition is_valid_move :: "Game \<Rightarrow> CoordPair \<Rightarrow> error + bool" where
  "is_valid_move g coords =
    (if \<not> is_valid_coord g (src coords) \<or> \<not> is_valid_coord g (dst coords) then Inr False
     else (case get g (src coords) of
             None \<Rightarrow> Inr False
           | Some src_unit \<Rightarrow>
               if player src_unit \<noteq> next_player g then Inr False
               else if src coords \<noteq> dst coords
                 then is_valid_move_loop g coords src_unit (iter_adjacent (src coords))
                 else Inr True))"

section \<open>Text rendering\<close>

text \<open>
  Subscripting a Python sequence with an integer: indices from \<open>-len\<close> to \<open>-1\<close>
  address the sequence from its end, and anything outside \<open>[-len, len)\<close> raises
  \<open>IndexError\<close>.
\<close>

definition py_index :: "'a list \<Rightarrow> int \<Rightarrow> error + 'a" where
  "py_index xs i =
    (if 0 \<le> i \<and> i < int (length xs) then Inr (xs ! nat i)
     else if - int (length xs) \<le> i \<and> i < 0 then Inr (xs ! nat (i + int (length xs)))
     else Inl IndexError)"

definition col_string :: "Coord \<Rightarrow> error + string" where
  "col_string c =
    (if col c < 16 then
       (case py_index ''0123456789abcdef'' (col c) of Inl e \<Rightarrow> Inl e | Inr ch \<Rightarrow> Inr [ch])
     else Inr ''?'')"

definition row_string :: "Coord \<Rightarrow> error + string" where
  "row_string c =
    (if row c < 26 then
       (case py_index ''ABCDEFGHIJKLMNOPQRSTUVWXYZ'' (row c) of Inl e \<Rightarrow> Inl e | Inr ch \<Rightarrow> Inr [ch])
     else Inr ''?'')"

definition to_string :: "Coord \<Rightarrow> error + string" where
  "to_string c =
    (case row_string c of
       Inl e \<Rightarrow> Inl e
     | Inr r \<Rightarrow> (case col_string c of Inl e \<Rightarrow> Inl e | Inr k \<Rightarrow> Inr (r @ k)))"

text \<open>\<open>str\<close> of a Python integer: its decimal digits, with a minus sign when negative.\<close>

fun str_nat :: "nat \<Rightarrow> string" where
  "str_nat n =
    (if n < 10 then [''0123456789'' ! n]
     else str_nat (n div 10) @ [''0123456789'' ! (n mod 10)])"

definition str_int :: "int \<Rightarrow> string" where
  "str_int i = (if i < 0 then CHR ''-'' # str_nat (nat (- i)) else str_nat (nat i))"

section \<open>Action execution\<close>

text \<open>
  Each \<open>perform_\<close> function returns the new game state, the success flag and the
  description string. \<open>perform_attack\<close> and \<open>perform_repair\<close> receive the two units
  as \<open>perform_move\<close> read them, possibly \<open>None\<close>.
\<close>

definition perform_attack ::
  "Game \<Rightarrow> CoordPair \<Rightarrow> Unit option \<Rightarrow> Unit option \<Rightarrow> error + (Game \<times> bool \<times> string)" where
  "perform_attack g coords src_unit dst_unit =
    (case src_unit of
       None \<Rightarrow> Inl AttributeError
     | Some su \<Rightarrow>
    (case dst_unit of
       None \<Rightarrow> Inl AttributeError
     | Some du \<Rightarrow>
    (let src_damage = damage_table ! UnitType_value (type su) ! UnitType_value (type du) * - 1;
         dst_damage = damage_table ! UnitType_value (type du) ! UnitType_value (type su) * - 1;
         g1 = mod_health g (src coords) src_damage;
         g2 = mod_health g1 (dst coords) dst_damage
     in (case to_string (src coords) of
           Inl e \<Rightarrow> Inl e
         | Inr s \<Rightarrow>
        (case to_string (dst coords) of
           Inl e \<Rightarrow> Inl e
         | Inr t \<Rightarrow>
             Inr (g2, True,
                  ''attack from '' @ s @ '' to '' @ t @ [CHR 0x0A] @
                  ''combat damage to source = '' @ str_int (src_damage * - 1) @
                  '' , to target = '' @ str_int (dst_damage * - 1)))))))"

definition perform_repair ::
  "Game \<Rightarrow> CoordPair \<Rightarrow> Unit option \<Rightarrow> Unit option \<Rightarrow> error + (Game \<times> bool \<times> string)" where
  "perform_repair g coords src_unit dst_unit =
    (case src_unit of
       None \<Rightarrow> Inl AttributeError
     | Some su \<Rightarrow>
    (case dst_unit of
       None \<Rightarrow> Inl AttributeError
     | Some du \<Rightarrow>
    (let repair = repair_table ! UnitType_value (type su) ! UnitType_value (type du);
         g1 = mod_health g (dst coords) repair
     in (case to_string (src coords) of
           Inl e \<Rightarrow> Inl e
         | Inr s \<Rightarrow>
        (case to_string (dst coords) of
           Inl e \<Rightarrow> Inl e
         | Inr t \<Rightarrow>
             Inr (g1, True,
                  ''repair from '' @ s @ '' to '' @ t @ [CHR 0x0A] @
                  ''repaired '' @ str_int repair @ '' health point''))))))"

definition perform_movement :: "Game \<Rightarrow> CoordPair \<Rightarrow> error + (Game \<times> bool \<times> string)" where
  "perform_movement g coords =
    (let g1 = set_cell g (dst coords) (get g (src coords));
         g2 = set_cell g1 (src coords) None
     in (case to_string (src coords) of
           Inl e \<Rightarrow> Inl e
         | Inr s \<Rightarrow>
        (case to_string (dst coords) of
           Inl e \<Rightarrow> Inl e
         | Inr t \<Rightarrow> Inr (g2, True, ''move from '' @ s @ '' to '' @ t))))"

text \<open>
  The loop of \<open>perform_suicide\<close> over \<open>coords.src.iter_range(1)\<close>, threading the game
  and \<open>total_damage\<close>.
\<close>

fun suicide_loop :: "Game \<Rightarrow> int \<Rightarrow> Coord list \<Rightarrow> Game \<times> int" where
  "suicide_loop g total_damage [] = (g, total_damage)"
| "suicide_loop g total_damage (coord # rest) =
    (if get g coord \<noteq> None
     then suicide_loop (mod_health g coord (- 2)) (total_damage + 2) rest
     else suicide_loop g total_damage rest)"

definition perform_suicide :: "Game \<Rightarrow> CoordPair \<Rightarrow> error + (Game \<times> bool \<times> string)" where
  "perform_suicide g coords =
    (let g1 = mod_health g (src coords) (- 9);
         (g2, total_damage) = suicide_loop g1 0 (iter_range (src coords) 1)
     in (case to_string (src coords) of
           Inl e \<Rightarrow> Inl e
         | Inr s \<Rightarrow>
             Inr (g2, True,
                  ''self-destruct at '' @ s @ '' and deals '' @ str_int total_damage @ '' total damage'')))"

definition perform_move :: "Game \<Rightarrow> CoordPair \<Rightarrow> error + (Game \<times> bool \<times> string)" where
  "perform_move g coords =
    (case is_valid_move g coords of
       Inl e \<Rightarrow> Inl e
     | Inr valid \<Rightarrow>
         if valid then
           (let src_unit = get g (src coords); dst_unit = get g (dst coords)
            in (case determine_action g coords of
                  Inl e \<Rightarrow> Inl e
                | Inr action \<Rightarrow>
                    if action = MOVE then perform_movement g coords
                    else if action = ATTACK then perform_attack g coords src_unit dst_unit
                    else if action = REPAIR then perform_repair g coords src_unit dst_unit
                    else perform_suicide g coords))
         else Inr (g, False, ''invalid move''))"

section \<open>Move generation\<close>

definition player_units :: "Game \<Rightarrow> Player \<Rightarrow> (Coord \<times> Unit) list" where
  "player_units g p =
    concat (map (\<lambda>coord. case get g coord of
                            None \<Rightarrow> []
                          | Some unit \<Rightarrow> if player unit = p then [(coord, unit)] else [])
                (iter_rectangle (from_dim (dim (options g)))))"

text \<open>
  The inner loop of \<open>move_candidates\<close> over the cells adjacent to one unit, and the
  outer loop over the units of the player to move; after the adjacent cells of a unit the
  self-targeting pair is yielded without a test.
\<close>

fun candidates_from :: "Game \<Rightarrow> Coord \<Rightarrow> Coord list \<Rightarrow> error + CoordPair list" where
  "candidates_from g s [] = Inr []"
| "candidates_from g s (d # rest) =
    (case is_valid_move g \<lparr>src = s, dst = d\<rparr> of
       Inl e \<Rightarrow> Inl e
     | Inr valid \<Rightarrow>
         (case candidates_from g s rest of
            Inl e \<Rightarrow> Inl e
          | Inr ms \<Rightarrow> Inr (if valid then \<lparr>src = s, dst = d\<rparr> # ms else ms)))"

fun move_candidates_loop :: "Game \<Rightarrow> (Coord \<times> Unit) list \<Rightarrow> error + CoordPair list" where
  "move_candidates_loop g [] = Inr []"
| "move_candidates_loop g ((s, u) # rest) =
    (case candidates_from g s (iter_adjacent s) of
       Inl e \<Rightarrow> Inl e
     | Inr ms \<Rightarrow>
         (case move_candidates_loop g rest of
            Inl e \<Rightarrow> Inl e
          | Inr ms' \<Rightarrow> Inr (ms @ [\<lparr>src = s, dst = s\<rparr>] @ ms')))"

definition move_candidates :: "Game \<Rightarrow> error + CoordPair list" where
  "move_candidates g = move_candidates_loop g (player_units g (next_player g))"

section \<open>Heuristic evaluation\<close>

text \<open>
  The search loop of the \<open>MOVE\<close> branch of \<open>calculate_heuristic3\<close>. The third argument
  is the loop variable \<open>unit\<close>: \<open>None\<close> while it is unbound, \<open>Some\<close> of the cell
  content read last. The module never imports \<open>math\<close>, so reaching
  \<open>math.sqrt\<close> (an AI unit of the other player was found) raises \<open>NameError\<close>.
\<close>

fun heuristic_move_loop ::
  "Game \<Rightarrow> Unit option \<Rightarrow> Unit option option \<Rightarrow> Coord list \<Rightarrow> error + Unit option option" where
  "heuristic_move_loop prev_state src_unit unit [] = Inr unit"
| "heuristic_move_loop prev_state src_unit unit (coord # rest) =
    (case get prev_state coord of
       None \<Rightarrow> heuristic_move_loop prev_state src_unit (Some None) rest
     | Some u \<Rightarrow>
         if type u = AI then
           (case src_unit of
              None \<Rightarrow> Inl AttributeError
            | Some su \<Rightarrow>
                if player u \<noteq> player su then Inl NameError
                else heuristic_move_loop prev_state src_unit (Some (Some u)) rest)
         else heuristic_move_loop prev_state src_unit (Some (Some u)) rest)"

definition heuristic_move :: "Game \<Rightarrow> Unit option \<Rightarrow> error + int" where
  "heuristic_move prev_state src_unit =
    (case heuristic_move_loop prev_state src_unit None
            (iter_rectangle (from_dim (dim (options prev_state)))) of
       Inl e \<Rightarrow> Inl e
     | Inr None \<Rightarrow> Inl UnboundLocalError
     | Inr (Some None) \<Rightarrow> Inl AttributeError
     | Inr (Some (Some unit)) \<Rightarrow>
         (let distance = 0;
              score = (if type unit = Virus then 80 - distance
                       else if type unit = Firewall then 70 - distance
                       else if type unit = Program then 60 - distance
                       else 50 - distance)
          in (case src_unit of
                None \<Rightarrow> Inl AttributeError
              | Some su \<Rightarrow> Inr (if player su = Defender then score * - 1 else score))))"

definition heuristic_attack :: "Unit option \<Rightarrow> Unit option \<Rightarrow> error + int" where
  "heuristic_attack src_unit dst_unit =
    (case src_unit of
       None \<Rightarrow> Inl AttributeError
     | Some su \<Rightarrow>
    (case dst_unit of
       None \<Rightarrow> Inl AttributeError
     | Some du \<Rightarrow>
       Inr (if player su = Attacker then
              (if type su = Virus then
                 (if type du = Tech then 98
                  else if type du = Firewall then 89
                  else if type du = Program then 94
                  else 100)
               else if type su = Firewall then
                 (if type du = Tech then 92
                  else if type du = Firewall then 91
                  else if type du = Program then 93
                  else 90)
               else if type su = Program then
                 (if type du = Tech then 99
                  else if type du = Firewall then 95
                  else if type du = Program then 97
                  else 96)
               else
                 (if type du = Tech then 88
                  else if type du = Firewall then 86
                  else if type du = Program then 84
                  else 87))
            else
              (if type su = Tech then
                 (if type du = Virus then - 91
                  else if type du = Firewall then - 86
                  else if type du = Program then - 92
                  else - 93)
               else if type su = Firewall then
                 (if type du = Virus then - 95
                  else if type du = Firewall then - 84
                  else if type du = Program then - 94
                  else - 85)
               else if type su = Program then
                 (if type du = Virus then - 83
                  else if type du = Firewall then - 87
                  else if type du = Program then - 96
                  else - 97)
               else
                 (if type du = Virus then 0
                  else if type du = Firewall then - 81
                  else if type du = Program then - 80
                  else - 79)))))"

definition heuristic_repair :: "Unit option \<Rightarrow> Unit option \<Rightarrow> error + int" where
  "heuristic_repair src_unit dst_unit =
    (case src_unit of
       None \<Rightarrow> Inl AttributeError
     | Some su \<Rightarrow>
         if player su = Attacker then Inr 85
         else
           (case dst_unit of
              None \<Rightarrow> Inl AttributeError
            | Some du \<Rightarrow>
                Inr (if type du = Firewall then (if health du \<le> 6 then - 98 else - 88)
                     else if type du = Program then (if health du \<le> 6 then - 99 else - 89)
                     else (if health du \<le> 6 then - 100 else - 90))))"

text \<open>
  \<open>calculate_heuristic3\<close>: the first statement calls \<open>prev_state.get(move.src)\<close>, which
  raises \<open>AttributeError\<close> when either argument is \<open>None\<close> (as at the root of a
  search).
\<close>

definition calculate_heuristic3 ::
  "Game \<Rightarrow> CoordPair option \<Rightarrow> ActionType option \<Rightarrow> Game option \<Rightarrow> error + int" where
  "calculate_heuristic3 g move action prev_state =
    (case prev_state of
       None \<Rightarrow> Inl AttributeError
     | Some prev \<Rightarrow>
    (case move of
       None \<Rightarrow> Inl AttributeError
     | Some mv \<Rightarrow>
    (let src_unit = get prev (src mv); dst_unit = get prev (dst mv)
     in if action = Some MOVE then heuristic_move prev src_unit
        else if action = Some ATTACK then heuristic_attack src_unit dst_unit
        else if action = Some REPAIR then heuristic_repair src_unit dst_unit
        else Inr (if next_player g = Attacker then 300 else - 300))))"

section \<open>Adversarial search\<close>

text \<open>
  The wall clock is an oracle: \<open>clock k\<close> tells whether the \<open>k\<close>-th comparison of
  the elapsed time with \<open>max_time\<close> finds the budget used up; the number of
  comparisons made so far is threaded through the search as \<open>tick\<close>. With
  \<open>max_time = None\<close> no comparison is made.

  The two sibling loops of \<open>minimax\<close> take the recursive call on a child
  (\<open>game_clone.minimax(depth - 1, ...)\<close>) as the parameter \<open>child\<close>; a clone is a
  value, so \<open>self.clone()\<close> is the game itself.
\<close>

type_synonym search_result = "error + ((int \<times> CoordPair option \<times> nat) \<times> nat)"

type_synonym child_search =
  "Game \<Rightarrow> bool \<Rightarrow> int \<Rightarrow> int \<Rightarrow> nat \<Rightarrow> CoordPair option \<Rightarrow> ActionType option \<Rightarrow> Game option
    \<Rightarrow> search_result"

fun max_loop ::
  "(nat \<Rightarrow> bool) \<Rightarrow> child_search \<Rightarrow> Game \<Rightarrow> int \<Rightarrow> int \<Rightarrow> nat \<Rightarrow> int \<Rightarrow> CoordPair option
    \<Rightarrow> CoordPair list \<Rightarrow> error + ((int \<times> CoordPair option) \<times> nat)" where
  "max_loop clock child g alpha beta tick max_eval best_move [] = Inr ((max_eval, best_move), tick)"
| "max_loop clock child g alpha beta tick max_eval best_move (move # rest) =
    (if max_time (options g) \<noteq> None \<and> clock tick then Inr ((max_eval, best_move), Suc tick)
     else
       (let tick1 = (if max_time (options g) \<noteq> None then Suc tick else tick)
        in case determine_action g move of
             Inl e \<Rightarrow> Inl e
           | Inr action2 \<Rightarrow>
          (case perform_move g move of
             Inl e \<Rightarrow> Inl e
           | Inr (game_clone, _) \<Rightarrow>
          (case child (next_turn game_clone) False alpha beta tick1 (Some move) (Some action2) (Some g) of
             Inl e \<Rightarrow> Inl e
           | Inr ((eval, _), tick2) \<Rightarrow>
               (let max_eval' = (if eval > max_eval then eval else max_eval);
                    best_move' = (if eval > max_eval then Some move else best_move)
                in if alpha_beta (options g) then
                     (let alpha' = max alpha eval
                      in if beta \<le> alpha' then Inr ((max_eval', best_move'), tick2)
                         else max_loop clock child g alpha' beta tick2 max_eval' best_move' rest)
                   else max_loop clock child g alpha beta tick2 max_eval' best_move' rest)))))"

fun min_loop ::
  "(nat \<Rightarrow> bool) \<Rightarrow> child_search \<Rightarrow> Game \<Rightarrow> int \<Rightarrow> int \<Rightarrow> nat \<Rightarrow> int \<Rightarrow> CoordPair option
    \<Rightarrow> CoordPair list \<Rightarrow> error + ((int \<times> CoordPair option) \<times> nat)" where
  "min_loop clock child g alpha beta tick min_eval best_move [] = Inr ((min_eval, best_move), tick)"
| "min_loop clock child g alpha beta tick min_eval best_move (move # rest) =
    (if max_time (options g) \<noteq> None \<and> clock tick then Inr ((min_eval, best_move), Suc tick)
     else
       (let tick1 = (if max_time (options g) \<noteq> None then Suc tick else tick)
        in case determine_action g move of
             Inl e \<Rightarrow> Inl e
           | Inr action2 \<Rightarrow>
          (case perform_move g move of
             Inl e \<Rightarrow> Inl e
           | Inr (game_clone, _) \<Rightarrow>
          (case child (next_turn game_clone) True alpha beta tick1 (Some move) (Some action2) (Some g) of
             Inl e \<Rightarrow> Inl e
           | Inr ((eval, _), tick2) \<Rightarrow>
               (let min_eval' = (if eval < min_eval then eval else min_eval);
                    best_move' = (if eval < min_eval then Some move else best_move)
                in if alpha_beta (options g) then
                     (let beta' = min beta eval
                      in if beta' \<le> alpha then Inr ((min_eval', best_move'), tick2)
                         else min_loop clock child g alpha beta' tick2 min_eval' best_move' rest)
                   else min_loop clock child g alpha beta tick2 min_eval' best_move' rest)))))"

definition minimax_leaf ::
  "Game \<Rightarrow> nat \<Rightarrow> CoordPair option \<Rightarrow> ActionType option \<Rightarrow> Game option \<Rightarrow> search_result" where
  "minimax_leaf g tick move action prev_state =
    (case calculate_heuristic3 g move action prev_state of
       Inl e \<Rightarrow> Inl e
     | Inr score \<Rightarrow> Inr ((score, None, 0), tick))"

fun minimax :: "(nat \<Rightarrow> bool) \<Rightarrow> nat \<Rightarrow> child_search" where
  "minimax clock 0 g maximizing_player alpha beta tick move action prev_state =
    minimax_leaf g tick move action prev_state"
| "minimax clock (Suc depth) g maximizing_player alpha beta tick move action prev_state =
    (if is_finished g then minimax_leaf g tick move action prev_state
     else
       (case move_candidates g of
          Inl e \<Rightarrow> Inl e
        | Inr possible_moves \<Rightarrow>
            if maximizing_player then
              (case max_loop clock (minimax clock depth) g alpha beta tick MIN_HEURISTIC_SCORE None
                      possible_moves of
                 Inl e \<Rightarrow> Inl e
               | Inr ((max_eval, best_move), tick') \<Rightarrow> Inr ((max_eval, best_move, Suc depth), tick'))
            else
              (case min_loop clock (minimax clock depth) g alpha beta tick MAX_HEURISTIC_SCORE None
                      possible_moves of
                 Inl e \<Rightarrow> Inl e
               | Inr ((min_eval, best_move), tick') \<Rightarrow> Inr ((min_eval, best_move, 0), tick'))))"

text \<open>\<open>suggest_move\<close> searches two plies deep and returns the move found.\<close>

definition suggest_move :: "(nat \<Rightarrow> bool) \<Rightarrow> Game \<Rightarrow> error + CoordPair option" where
  "suggest_move clock g =
    (case (if next_player g = Attacker
           then minimax clock 2 g True MIN_HEURISTIC_SCORE MAX_HEURISTIC_SCORE 0 None None None
           else minimax clock 2 g False MIN_HEURISTIC_SCORE MAX_HEURISTIC_SCORE 0 None None None) of
       Inl e \<Rightarrow> Inl e
     | Inr ((score, move, avg_depth), _) \<Rightarrow> Inr move)"

section \<open>Coordinate text notation\<close>

text \<open>
  Strings are lists of 8-bit characters, so the model covers the input strings whose code
  points are below 256. On these, \<open>str.upper\<close> and \<open>str.lower\<close> map a character into
  \<open>A-Z\<close> or \<open>0-9a-f\<close> only from an ASCII letter or digit, so the case mappings below
  change the ASCII letters and leave every other character as it is. \<open>py_isspace\<close> lists
  the characters that \<open>str.strip()\<close> removes.
\<close>

definition py_isspace :: "char \<Rightarrow> bool" where
  "py_isspace c =
    (of_char c \<in> set [9, 10, 11, 12, 13, 28, 29, 30, 31, 32, 133, 160 :: nat])"

definition strip :: "string \<Rightarrow> string" where
  "strip s = rev (dropWhile py_isspace (rev (dropWhile py_isspace s)))"

definition upper_char :: "char \<Rightarrow> char" where
  "upper_char c =
    (if 97 \<le> (of_char c :: nat) \<and> (of_char c :: nat) \<le> 122 then char_of ((of_char c :: nat) - 32) else c)"

definition lower_char :: "char \<Rightarrow> char" where
  "lower_char c =
    (if 65 \<le> (of_char c :: nat) \<and> (of_char c :: nat) \<le> 90 then char_of ((of_char c :: nat) + 32) else c)"

text \<open>\<open>str.find\<close> of a one-character string: the first index, or \<open>-1\<close>.\<close>

fun find_from :: "string \<Rightarrow> char \<Rightarrow> int \<Rightarrow> int" where
  "find_from [] c i = - 1"
| "find_from (x # xs) c i = (if x = c then i else find_from xs c (i + 1))"

definition find_char :: "string \<Rightarrow> char \<Rightarrow> int" where
  "find_char xs c = find_from xs c 0"

text \<open>The loop \<open>for sep in " ,.:;-_": s = s.replace(sep, "")\<close>.\<close>

definition remove_separators :: "string \<Rightarrow> string" where
  "remove_separators s = foldl (\<lambda>t sep. filter (\<lambda>c. c \<noteq> sep) t) s '' ,.:;-_''"

definition Coord_from_string :: "string \<Rightarrow> Coord option" where
  "Coord_from_string s0 =
    (let s = remove_separators (strip s0)
     in if length s = 2 then
          Some \<lparr>row = find_char ''ABCDEFGHIJKLMNOPQRSTUVWXYZ'' (upper_char (s ! 0)),
                col = find_char ''0123456789abcdef'' (lower_char (s ! 1))\<rparr>
        else None)"

definition CoordPair_from_string :: "string \<Rightarrow> CoordPair option" where
  "CoordPair_from_string s0 =
    (let s = remove_separators (strip s0)
     in if length s = 4 then
          Some \<lparr>src = \<lparr>row = find_char ''ABCDEFGHIJKLMNOPQRSTUVWXYZ'' (upper_char (s ! 0)),
                       col = find_char ''0123456789abcdef'' (lower_char (s ! 1))\<rparr>,
                dst = \<lparr>row = find_char ''ABCDEFGHIJKLMNOPQRSTUVWXYZ'' (upper_char (s ! 2)),
                       col = find_char ''0123456789abcdef'' (lower_char (s ! 3))\<rparr>\<rparr>
        else None)"

section \<open>Construction and invariants\<close>

text \<open>
  \<open>new_game opts\<close> is \<open>Game(options=opts)\<close>: the defaults of the dataclass, then
  \<open>__post_init__\<close> (an empty board, then the twelve \<open>set\<close> calls in the source's order).
\<close>

definition new_game :: "Options \<Rightarrow> Game" where
  "new_game opts =
    (let d = dim opts;
         md = d - 1;
         g0 = \<lparr>board = replicate (nat d) (replicate (nat d) None), next_player = Attacker,
               turns_played = 0, options = opts, attacker_has_ai = True, defender_has_ai = True\<rparr>
     in foldl (\<lambda>g (c, u). set_cell g c (Some u)) g0
          [(\<lparr>row = 0, col = 0\<rparr>, \<lparr>player = Defender, type = AI, health = 9\<rparr>),
           (\<lparr>row = 1, col = 0\<rparr>, \<lparr>player = Defender, type = Tech, health = 9\<rparr>),
           (\<lparr>row = 0, col = 1\<rparr>, \<lparr>player = Defender, type = Tech, health = 9\<rparr>),
           (\<lparr>row = 2, col = 0\<rparr>, \<lparr>player = Defender, type = Firewall, health = 9\<rparr>),
           (\<lparr>row = 0, col = 2\<rparr>, \<lparr>player = Defender, type = Firewall, health = 9\<rparr>),
           (\<lparr>row = 1, col = 1\<rparr>, \<lparr>player = Defender, type = Program, health = 9\<rparr>),
           (\<lparr>row = md, col = md\<rparr>, \<lparr>player = Attacker, type = AI, health = 9\<rparr>),
           (\<lparr>row = md - 1, col = md\<rparr>, \<lparr>player = Attacker, type = Virus, health = 9\<rparr>),
           (\<lparr>row = md, col = md - 1\<rparr>, \<lparr>player = Attacker, type = Virus, health = 9\<rparr>),
           (\<lparr>row = md - 2, col = md\<rparr>, \<lparr>player = Attacker, type = Program, health = 9\<rparr>),
           (\<lparr>row = md, col = md - 2\<rparr>, \<lparr>player = Attacker, type = Program, health = 9\<rparr>),
           (\<lparr>row = md - 1, col = md - 1\<rparr>, \<lparr>player = Attacker, type = Firewall, health = 9\<rparr>)])"

text \<open>
  The invariants of a game state: the board has \<open>dim\<close> rows of \<open>dim\<close> cells, and every
  unit on it has a health from 1 to 9.
\<close>

definition wf_board :: "Game \<Rightarrow> bool" where
  "wf_board g =
    (length (board g) = nat (dim (options g)) \<and>
     list_all (\<lambda>r. length r = nat (dim (options g))) (board g))"

definition healths_ok :: "Game \<Rightarrow> bool" where
  "healths_ok g =
    list_all (list_all (\<lambda>cell. case cell of None \<Rightarrow> True | Some u \<Rightarrow> 0 < health u \<and> health u \<le> 9))
      (board g)"

definition wf_game :: "Game \<Rightarrow> bool" where
  "wf_game g = (wf_board g \<and> healths_ok g)"

section \<open>Example states\<close>

text \<open>
  \<open>place_units opts us\<close> is a fresh game with options \<open>opts\<close> whose board holds
  exactly the units \<open>us\<close>, placed with \<open>set\<close> on an empty \<open>dim \<times> dim\<close> board.
\<close>

definition place_units :: "Options \<Rightarrow> (Coord \<times> Unit) list \<Rightarrow> Game" where
  "place_units opts us =
    foldl (\<lambda>g (c, u). set_cell g c (Some u))
      \<lparr>board = replicate (nat (dim opts)) (replicate (nat (dim opts)) None), next_player = Attacker,
       turns_played = 0, options = opts, attacker_has_ai = True, defender_has_ai = True\<rparr> us"

definition options_5 :: Options where
  "options_5 = \<lparr>dim = 5, max_time = None, alpha_beta = False, max_turns = Some 100\<rparr>"

text \<open>An Attacker Virus at C2 next to a Defender Tech at C3, both AI units in their corners.\<close>

definition virus_tech_state :: Game where
  "virus_tech_state =
    place_units options_5
      [(\<lparr>row = 0, col = 0\<rparr>, \<lparr>player = Defender, type = AI, health = 9\<rparr>),
       (\<lparr>row = 2, col = 2\<rparr>, \<lparr>player = Attacker, type = Virus, health = 9\<rparr>),
       (\<lparr>row = 2, col = 3\<rparr>, \<lparr>player = Defender, type = Tech, health = 9\<rparr>),
       (\<lparr>row = 4, col = 4\<rparr>, \<lparr>player = Attacker, type = AI, health = 9\<rparr>)]"

text \<open>An Attacker Virus at C2 next to the Defender AI at C3.\<close>

definition virus_ai_state :: Game where
  "virus_ai_state =
    place_units options_5
      [(\<lparr>row = 2, col = 2\<rparr>, \<lparr>player = Attacker, type = Virus, health = 9\<rparr>),
       (\<lparr>row = 2, col = 3\<rparr>, \<lparr>player = Defender, type = AI, health = 9\<rparr>),
       (\<lparr>row = 4, col = 4\<rparr>, \<lparr>player = Attacker, type = AI, health = 9\<rparr>)]"

text \<open>
  An Attacker Program at C2 next to a Defender Tech at C3, an Attacker Virus at B3 above
  that Tech, and an Attacker Firewall alone at E0.
\<close>

definition program_tech_state :: Game where
  "program_tech_state =
    place_units options_5
      [(\<lparr>row = 0, col = 0\<rparr>, \<lparr>player = Defender, type = AI, health = 9\<rparr>),
       (\<lparr>row = 1, col = 3\<rparr>, \<lparr>player = Attacker, type = Virus, health = 9\<rparr>),
       (\<lparr>row = 2, col = 2\<rparr>, \<lparr>player = Attacker, type = Program, health = 9\<rparr>),
       (\<lparr>row = 2, col = 3\<rparr>, \<lparr>player = Defender, type = Tech, health = 9\<rparr>),
       (\<lparr>row = 4, col = 0\<rparr>, \<lparr>player = Attacker, type = Firewall, health = 9\<rparr>),
       (\<lparr>row = 4, col = 4\<rparr>, \<lparr>player = Attacker, type = AI, health = 9\<rparr>)]"

text \<open>
  An Attacker Program at C2 whose four neighbours are all occupied: Attacker Viruses at
  B2 and D2, an Attacker Firewall at C1 and a Defender Tech at C3.
\<close>

definition boxed_state :: Game where
  "boxed_state =
    place_units options_5
      [(\<lparr>row = 0, col = 0\<rparr>, \<lparr>player = Defender, type = AI, health = 9\<rparr>),
       (\<lparr>row = 1, col = 2\<rparr>, \<lparr>player = Attacker, type = Virus, health = 9\<rparr>),
       (\<lparr>row = 2, col = 1\<rparr>, \<lparr>player = Attacker, type = Firewall, health = 9\<rparr>),
       (\<lparr>row = 2, col = 2\<rparr>, \<lparr>player = Attacker, type = Program, health = 9\<rparr>),
       (\<lparr>row = 2, col = 3\<rparr>, \<lparr>player = Defender, type = Tech, health = 9\<rparr>),
       (\<lparr>row = 3, col = 2\<rparr>, \<lparr>player = Attacker, type = Virus, health = 9\<rparr>),
       (\<lparr>row = 4, col = 4\<rparr>, \<lparr>player = Attacker, type = AI, health = 9\<rparr>)]"

text \<open>
  Four units in the lower right corner of the \<open>5 \<times> 5\<close> board: Defender AI at D3,
  Attacker AI at D4, Attacker Virus at E3, Defender Tech at E4, the Attacker to move.
\<close>

definition corner_state :: Game where
  "corner_state =
    place_units options_5
      [(\<lparr>row = 3, col = 3\<rparr>, \<lparr>player = Defender, type = AI, health = 9\<rparr>),
       (\<lparr>row = 3, col = 4\<rparr>, \<lparr>player = Attacker, type = AI, health = 9\<rparr>),
       (\<lparr>row = 4, col = 3\<rparr>, \<lparr>player = Attacker, type = Virus, health = 9\<rparr>),
       (\<lparr>row = 4, col = 4\<rparr>, \<lparr>player = Defender, type = Tech, health = 9\<rparr>)]"

text \<open>The game with the \<open>alpha_beta\<close> option set to \<open>b\<close>.\<close>

definition with_alpha_beta :: "bool \<Rightarrow> Game \<Rightarrow> Game" where
  "with_alpha_beta b g = g\<lparr>options := (options g)\<lparr>alpha_beta := b\<rparr>\<rparr>"

text \<open>
  The relation between the value \<open>v\<close> of a node searched without pruning and the
  value \<open>r\<close> that the pruned search returns for it in the window \<open>(a, b)\<close>: a
  result at or below \<open>a\<close> is an upper bound of \<open>v\<close>, a result at or above \<open>b\<close>
  a lower bound, and a result inside the window is exact.
\<close>

definition fail_soft :: "int \<Rightarrow> int \<Rightarrow> int \<Rightarrow> int \<Rightarrow> bool" where
  "fail_soft a b v r = ((r \<le> a \<longrightarrow> v \<le> r) \<and> (b \<le> r \<longrightarrow> r \<le> v) \<and> (a < r \<and> r < b \<longrightarrow> r = v))"

text \<open>
  The health of the unit at a cell after \<open>perform_move\<close> (\<open>None\<close> for an empty
  cell), for stating what a move does at a concrete state.
\<close>

definition health_after :: "Game \<Rightarrow> CoordPair \<Rightarrow> Coord \<Rightarrow> error + int option" where
  "health_after g coords c =
    (case perform_move g coords of
       Inl e \<Rightarrow> Inl e
     | Inr (g', _) \<Rightarrow> Inr (map_option health (get g' c)))"

section \<open>Cell access\<close>

lemma is_valid_coord_iff:
  "is_valid_coord g c \<longleftrightarrow> 0 \<le> row c \<and> row c < dim (options g) \<and> 0 \<le> col c \<and> col c < dim (options g)"
  by (auto simp: is_valid_coord_def Let_def)

lemma get_Some_valid: "get g c = Some u \<Longrightarrow> is_valid_coord g c"
  by (auto simp: get_def split: if_splits)

lemma get_invalid: "\<not> is_valid_coord g c \<Longrightarrow> get g c = None"
  by (simp add: get_def)

lemma options_set_cell [simp]: "options (set_cell g c u) = options g"
  by (simp add: set_cell_def)

lemma next_player_set_cell [simp]: "next_player (set_cell g c u) = next_player g"
  by (simp add: set_cell_def)

lemma turns_played_set_cell [simp]: "turns_played (set_cell g c u) = turns_played g"
  by (simp add: set_cell_def)

lemma is_valid_coord_set_cell [simp]: "is_valid_coord (set_cell g c u) c' = is_valid_coord g c'"
  by (simp add: is_valid_coord_def)

lemma wf_board_row_length:
  "wf_board g \<Longrightarrow> is_valid_coord g c \<Longrightarrow>
     nat (row c) < length (board g) \<and> nat (col c) < length (board g ! nat (row c))"
  by (simp add: wf_board_def is_valid_coord_iff list_all_length)

lemma is_valid_coord_board_update [simp]: "is_valid_coord (g\<lparr>board := b\<rparr>) c = is_valid_coord g c"
  by (simp add: is_valid_coord_def)

lemma nth_nested_update:
  assumes "i < length b" "j < length (b ! i)"
  shows "b[i := (b ! i)[j := u]] ! i' ! j' = (if i' = i \<and> j' = j then u else b ! i' ! j')"
proof (cases "i' = i")
  case True
  then show ?thesis using assms by (cases "j' = j") simp_all
next
  case False
  then show ?thesis by simp
qed

lemma length_nested_update:
  "length (b[i := (b ! i)[j := u]] ! n) = length (b ! n)"
  by (cases "n = i"; cases "i < length b") (simp_all add: list_update_beyond)

lemma wf_board_set_cell: "wf_board g \<Longrightarrow> wf_board (set_cell g c u)"
  by (simp add: wf_board_def set_cell_def list_all_length length_nested_update)

lemma Coord_eq_iff: "(c :: Coord) = c' \<longleftrightarrow> row c = row c' \<and> col c = col c'"
  by (cases c; cases c') simp

lemma get_set_cell:
  assumes "wf_board g"
  shows "get (set_cell g c u) c' = (if is_valid_coord g c \<and> c' = c then u else get g c')"
proof (cases "is_valid_coord g c")
  case False
  then show ?thesis by (simp add: set_cell_def)
next
  case vc: True
  show ?thesis
  proof (cases "is_valid_coord g c'")
    case False
    then have "c' \<noteq> c" using vc by auto
    with False show ?thesis by (simp add: get_def)
  next
    case vc': True
    note l = wf_board_row_length [OF assms vc] wf_board_row_length [OF assms vc']
    have rows: "nat (row c') = nat (row c) \<longleftrightarrow> row c' = row c"
      and cols: "nat (col c') = nat (col c) \<longleftrightarrow> col c' = col c"
      using vc vc' by (auto simp: is_valid_coord_iff)
    have "get (set_cell g c u) c' =
            (board g)[nat (row c) := (board g ! nat (row c))[nat (col c) := u]] ! nat (row c') ! nat (col c')"
      using vc vc' by (simp add: get_def set_cell_def)
    also have "\<dots> = (if row c' = row c \<and> col c' = col c then u else board g ! nat (row c') ! nat (col c'))"
      using l rows cols by (simp add: nth_nested_update)
    also have "\<dots> = (if is_valid_coord g c \<and> c' = c then u else get g c')"
      using vc vc' by (simp add: get_def Coord_eq_iff)
    finally show ?thesis .
  qed
qed

lemma healths_ok_get:
  assumes "wf_board g" "healths_ok g" "get g c = Some u"
  shows "0 < health u \<and> health u \<le> 9"
proof -
  have v: "is_valid_coord g c" using assms(3) by (rule get_Some_valid)
  note l = wf_board_row_length [OF assms(1) v]
  have "board g ! nat (row c) ! nat (col c) = Some u"
    using assms(3) v by (simp add: get_def)
  moreover have "case board g ! nat (row c) ! nat (col c) of None \<Rightarrow> True
                 | Some u \<Rightarrow> 0 < health u \<and> health u \<le> 9"
    using assms(2) l by (simp add: healths_ok_def list_all_length)
  ultimately show ?thesis by simp
qed

section \<open>Termination check\<close>

text \<open>
  Claim C5. In every game state whose number of turns played has reached the configured
  turn limit, \<open>has_winner\<close> returns the Defender, whatever the AI-alive flags and the
  board are: the turn-limit test comes first.
\<close>

theorem has_winner_turn_limit:
  assumes "max_turns (options g) = Some m" and "turns_played g \<ge> m"
  shows "has_winner g = Some Defender"
  using assms by (simp add: has_winner_def)

theorem has_winner_turn_limit_witness:
  "attacker_has_ai ((new_game options_5)\<lparr>turns_played := 100\<rparr>) \<and>
   defender_has_ai ((new_game options_5)\<lparr>turns_played := 100\<rparr>) \<and>
   has_winner ((new_game options_5)\<lparr>turns_played := 100\<rparr>) = Some Defender"
proof -
  have a: "attacker_has_ai ((new_game options_5)\<lparr>turns_played := 100\<rparr>)"
    by code_simp
  have d: "defender_has_ai ((new_game options_5)\<lparr>turns_played := 100\<rparr>)"
    by code_simp
  have m: "max_turns (options ((new_game options_5)\<lparr>turns_played := 100\<rparr>)) = Some 100"
    by code_simp
  have t: "turns_played ((new_game options_5)\<lparr>turns_played := 100\<rparr>) \<ge> 100"
    by simp
  show ?thesis
    using a d has_winner_turn_limit [OF m t] by simp
qed

section \<open>Move classification\<close>

text \<open>
  Claim C8, as amended. \<open>determine_action\<close> has no effect on the game and classifies
  a coordinate pair without testing legality: \<open>SUICIDE\<close> when the two coordinates
  are equal, \<open>MOVE\<close> when they differ and the destination holds no unit, \<open>REPAIR\<close> or
  \<open>ATTACK\<close> when they differ and both cells hold a unit, of the same or of different
  players. It is not total: when the coordinates differ, the destination holds a unit
  and the source holds none, it raises \<open>AttributeError\<close>. It returns an action for
  every pair whose source cell holds a unit, and so for every pair that
  \<open>is_valid_move\<close> accepts.
\<close>

theorem determine_action_classification:
  "(s = d \<longrightarrow> determine_action g \<lparr>src = s, dst = d\<rparr> = Inr SUICIDE) \<and>
   (s \<noteq> d \<and> get g d = None \<longrightarrow> determine_action g \<lparr>src = s, dst = d\<rparr> = Inr MOVE) \<and>
   (s \<noteq> d \<and> get g s = Some su \<and> get g d = Some du \<and> player su = player du
      \<longrightarrow> determine_action g \<lparr>src = s, dst = d\<rparr> = Inr REPAIR) \<and>
   (s \<noteq> d \<and> get g s = Some su \<and> get g d = Some du \<and> player su \<noteq> player du
      \<longrightarrow> determine_action g \<lparr>src = s, dst = d\<rparr> = Inr ATTACK) \<and>
   (s \<noteq> d \<and> get g s = None \<and> get g d = Some du
      \<longrightarrow> determine_action g \<lparr>src = s, dst = d\<rparr> = Inl AttributeError) \<and>
   (get g s \<noteq> None \<longrightarrow> (\<exists>a. determine_action g \<lparr>src = s, dst = d\<rparr> = Inr a)) \<and>
   (is_valid_move g \<lparr>src = s, dst = d\<rparr> = Inr True \<longrightarrow>
      get g s \<noteq> None \<and> (\<exists>a. determine_action g \<lparr>src = s, dst = d\<rparr> = Inr a))"
proof -
  have table:
   "(s = d \<longrightarrow> determine_action g \<lparr>src = s, dst = d\<rparr> = Inr SUICIDE) \<and>
    (s \<noteq> d \<and> get g d = None \<longrightarrow> determine_action g \<lparr>src = s, dst = d\<rparr> = Inr MOVE) \<and>
    (s \<noteq> d \<and> get g s = Some su \<and> get g d = Some du \<and> player su = player du
      \<longrightarrow> determine_action g \<lparr>src = s, dst = d\<rparr> = Inr REPAIR) \<and>
    (s \<noteq> d \<and> get g s = Some su \<and> get g d = Some du \<and> player su \<noteq> player du
      \<longrightarrow> determine_action g \<lparr>src = s, dst = d\<rparr> = Inr ATTACK) \<and>
    (s \<noteq> d \<and> get g s = None \<and> get g d = Some du
      \<longrightarrow> determine_action g \<lparr>src = s, dst = d\<rparr> = Inl AttributeError)"
    by (simp add: determine_action_def)
  have unit: "\<exists>a. determine_action g \<lparr>src = s, dst = d\<rparr> = Inr a" if "get g s \<noteq> None"
  proof -
    from that obtain u where u: "get g s = Some u" by blast
    show ?thesis
      by (cases "get g d") (simp_all add: determine_action_def u)
  qed
  have valid: "get g s \<noteq> None" if "is_valid_move g \<lparr>src = s, dst = d\<rparr> = Inr True"
  proof
    assume "get g s = None"
    then have "is_valid_move g \<lparr>src = s, dst = d\<rparr> = Inr False"
      by (simp add: is_valid_move_def)
    then show False using that by simp
  qed
  have total: "get g s \<noteq> None \<longrightarrow> (\<exists>a. determine_action g \<lparr>src = s, dst = d\<rparr> = Inr a)"
    using unit by blast
  have accepted: "is_valid_move g \<lparr>src = s, dst = d\<rparr> = Inr True \<longrightarrow>
      get g s \<noteq> None \<and> (\<exists>a. determine_action g \<lparr>src = s, dst = d\<rparr> = Inr a)"
    using unit valid by blast
  show ?thesis
    using table total accepted by (intro conjI) (elim conjE, assumption)+
qed

theorem determine_action_classification_witness:
  "determine_action (new_game options_5) \<lparr>src = \<lparr>row = 3, col = 3\<rparr>, dst = \<lparr>row = 3, col = 3\<rparr>\<rparr> = Inr SUICIDE \<and>
   determine_action (new_game options_5) \<lparr>src = \<lparr>row = 3, col = 3\<rparr>, dst = \<lparr>row = 2, col = 3\<rparr>\<rparr> = Inr MOVE \<and>
   determine_action (new_game options_5) \<lparr>src = \<lparr>row = 3, col = 3\<rparr>, dst = \<lparr>row = 3, col = 4\<rparr>\<rparr> = Inr REPAIR \<and>
   determine_action virus_tech_state \<lparr>src = \<lparr>row = 2, col = 2\<rparr>, dst = \<lparr>row = 2, col = 3\<rparr>\<rparr> = Inr ATTACK \<and>
   determine_action (new_game options_5) \<lparr>src = \<lparr>row = 2, col = 2\<rparr>, dst = \<lparr>row = 0, col = 0\<rparr>\<rparr> = Inl AttributeError \<and>
   is_valid_move virus_tech_state \<lparr>src = \<lparr>row = 2, col = 2\<rparr>, dst = \<lparr>row = 2, col = 3\<rparr>\<rparr> = Inr True \<and>
   get virus_tech_state \<lparr>row = 2, col = 2\<rparr> \<noteq> None \<and>
   (\<exists>a. determine_action virus_tech_state \<lparr>src = \<lparr>row = 2, col = 2\<rparr>, dst = \<lparr>row = 2, col = 3\<rparr>\<rparr> = Inr a)"
proof -
  have fw: "get (new_game options_5) \<lparr>row = 3, col = 3\<rparr> = Some \<lparr>player = Attacker, type = Firewall, health = 9\<rparr>"
    by code_simp
  have vi: "get (new_game options_5) \<lparr>row = 3, col = 4\<rparr> = Some \<lparr>player = Attacker, type = Virus, health = 9\<rparr>"
    by code_simp
  have em: "get (new_game options_5) \<lparr>row = 2, col = 3\<rparr> = None"
    by code_simp
  have em2: "get (new_game options_5) \<lparr>row = 2, col = 2\<rparr> = None"
    by code_simp
  have ai: "get (new_game options_5) \<lparr>row = 0, col = 0\<rparr> = Some \<lparr>player = Defender, type = AI, health = 9\<rparr>"
    by code_simp
  have v: "get virus_tech_state \<lparr>row = 2, col = 2\<rparr> = Some \<lparr>player = Attacker, type = Virus, health = 9\<rparr>"
    by code_simp
  have t: "get virus_tech_state \<lparr>row = 2, col = 3\<rparr> = Some \<lparr>player = Defender, type = Tech, health = 9\<rparr>"
    by code_simp
  have ok: "is_valid_move virus_tech_state \<lparr>src = \<lparr>row = 2, col = 2\<rparr>, dst = \<lparr>row = 2, col = 3\<rparr>\<rparr> = Inr True"
    by code_simp
  show ?thesis
    using determine_action_classification [of "\<lparr>row = 3, col = 3\<rparr>" "\<lparr>row = 3, col = 3\<rparr>" "new_game options_5"]
      determine_action_classification [of "\<lparr>row = 3, col = 3\<rparr>" "\<lparr>row = 2, col = 3\<rparr>" "new_game options_5"]
      determine_action_classification [of "\<lparr>row = 3, col = 3\<rparr>" "\<lparr>row = 3, col = 4\<rparr>" "new_game options_5"
         "\<lparr>player = Attacker, type = Firewall, health = 9\<rparr>" "\<lparr>player = Attacker, type = Virus, health = 9\<rparr>"]
      determine_action_classification [of "\<lparr>row = 2, col = 2\<rparr>" "\<lparr>row = 2, col = 3\<rparr>" virus_tech_state
         "\<lparr>player = Attacker, type = Virus, health = 9\<rparr>" "\<lparr>player = Defender, type = Tech, health = 9\<rparr>"]
      determine_action_classification [of "\<lparr>row = 2, col = 2\<rparr>" "\<lparr>row = 0, col = 0\<rparr>" "new_game options_5" _
         "\<lparr>player = Defender, type = AI, health = 9\<rparr>"]
      fw vi em em2 ai v t ok
    by simp
qed

theorem determine_action_not_total:
  "determine_action (new_game options_5) \<lparr>src = \<lparr>row = 2, col = 2\<rparr>, dst = \<lparr>row = 0, col = 0\<rparr>\<rparr>
     = Inl AttributeError"
  by code_simp

section \<open>Move legality\<close>

lemma iter_adjacent_neq: "c \<in> set (iter_adjacent s) \<Longrightarrow> c \<noteq> s"
  by (auto simp: iter_adjacent_def Coord_eq_iff)

lemma adjacent_enemy_loop_iff:
  "adjacent_enemy_loop g su cs \<longleftrightarrow>
     \<not> (type su \<in> {AI, Firewall, Program} \<and>
        (\<exists>c \<in> set cs. \<exists>u. get g c = Some u \<and> player su \<noteq> player u))"
  by (induction cs) (auto split: option.splits)

lemma is_valid_move_loop_notin:
  "dst coords \<notin> set cs \<Longrightarrow> is_valid_move_loop g coords su cs = Inr False"
  by (induction cs) auto

lemma is_valid_move_loop_in:
  "dst coords \<in> set cs \<Longrightarrow>
   is_valid_move_loop g coords su cs = is_valid_move_loop g coords su [dst coords]"
  by (induction cs) auto

lemma is_valid_move_self:
  assumes "get g s = Some su" "player su = next_player g"
  shows "is_valid_move g \<lparr>src = s, dst = s\<rparr> = Inr True"
  using assms get_Some_valid [OF assms(1)] by (simp add: is_valid_move_def)

lemma is_valid_move_adjacent:
  assumes "get g s = Some su" "player su = next_player g" "d \<in> set (iter_adjacent s)"
    "is_valid_coord g d"
  shows "is_valid_move g \<lparr>src = s, dst = d\<rparr> =
           is_valid_move_loop g \<lparr>src = s, dst = d\<rparr> su [d]"
proof -
  have "s \<noteq> d" using assms(3) iter_adjacent_neq by blast
  then have "is_valid_move g \<lparr>src = s, dst = d\<rparr> =
               is_valid_move_loop g \<lparr>src = s, dst = d\<rparr> su (iter_adjacent s)"
    using assms get_Some_valid [OF assms(1)] by (simp add: is_valid_move_def)
  also have "\<dots> = is_valid_move_loop g \<lparr>src = s, dst = d\<rparr> su [d]"
    using is_valid_move_loop_in [of "\<lparr>src = s, dst = d\<rparr>" "iter_adjacent s" g su] assms(3) by simp
  finally show ?thesis .
qed

lemma is_valid_move_attack:
  assumes "get g s = Some su" "player su = next_player g" "e \<in> set (iter_adjacent s)"
    "get g e = Some eu" "player su \<noteq> player eu"
  shows "is_valid_move g \<lparr>src = s, dst = e\<rparr> = Inr True"
    and "determine_action g \<lparr>src = s, dst = e\<rparr> = Inr ATTACK"
proof -
  have ne: "s \<noteq> e" using assms(3) iter_adjacent_neq by blast
  show da: "determine_action g \<lparr>src = s, dst = e\<rparr> = Inr ATTACK"
    using assms ne by (auto simp: determine_action_def)
  show "is_valid_move g \<lparr>src = s, dst = e\<rparr> = Inr True"
    using is_valid_move_adjacent [OF assms(1,2,3) get_Some_valid [OF assms(4)]] assms(4) da
    by simp
qed

lemma is_valid_move_empty:
  assumes "get g s = Some su" "player su = next_player g" "d \<in> set (iter_adjacent s)"
    "get g d = None"
  shows "is_valid_move g \<lparr>src = s, dst = d\<rparr> =
     Inr (is_valid_coord g d \<and>
          (type su \<in> {AI, Firewall, Program} \<longrightarrow>
             (if player su = Attacker then \<not> (row d - row s > 0 \<or> col d - col s > 0)
              else \<not> (row d - row s < 0 \<or> col d - col s < 0)) \<and>
             \<not> (\<exists>e \<in> set (iter_adjacent s). \<exists>eu. get g e = Some eu \<and> player su \<noteq> player eu)))"
proof (cases "is_valid_coord g d")
  case False
  then show ?thesis by (simp add: is_valid_move_def)
next
  case True
  have "is_valid_move g \<lparr>src = s, dst = d\<rparr> = unit_movement_restriction g \<lparr>src = s, dst = d\<rparr>"
    using is_valid_move_adjacent [OF assms(1,2,3) True] assms(4) by simp
  also have "\<dots> = Inr (type su \<in> {AI, Firewall, Program} \<longrightarrow>
             (if player su = Attacker then \<not> (row d - row s > 0 \<or> col d - col s > 0)
              else \<not> (row d - row s < 0 \<or> col d - col s < 0)) \<and>
             \<not> (\<exists>e \<in> set (iter_adjacent s). \<exists>eu. get g e = Some eu \<and> player su \<noteq> player eu))"
    using assms(1) by (simp add: unit_movement_restriction_def Let_def adjacent_enemy_loop_iff)
  finally show ?thesis using True by simp
qed

lemma determine_action_Inr:
  assumes "get g (src coords) = Some su"
  shows "\<exists>a. determine_action g coords = Inr a"
  using assms by (cases "get g (dst coords)") (simp_all add: determine_action_def)

lemma unit_movement_restriction_Inr:
  assumes "get g (src coords) = Some su"
  shows "\<exists>b. unit_movement_restriction g coords = Inr b"
  using assms by (auto simp: unit_movement_restriction_def Let_def)

lemma is_valid_move_loop_Inr:
  assumes "get g (src coords) = Some su"
  shows "\<exists>b. is_valid_move_loop g coords su cs = Inr b"
proof (cases "dst coords \<in> set cs")
  case False
  then show ?thesis by (auto simp: is_valid_move_loop_notin)
next
  case True
  obtain a where a: "determine_action g coords = Inr a"
    using determine_action_Inr [OF assms] by blast
  obtain b where b: "unit_movement_restriction g coords = Inr b"
    using unit_movement_restriction_Inr [OF assms] by blast
  have "\<exists>b. is_valid_move_loop g coords su [dst coords] = Inr b"
    by (cases "get g (dst coords)") (auto simp: a b Let_def)
  then show ?thesis using is_valid_move_loop_in [OF True] by simp
qed

lemma is_valid_move_total: "\<exists>b. is_valid_move g coords = Inr b"
proof (cases "get g (src coords)")
  case None
  then show ?thesis by (auto simp: is_valid_move_def)
next
  case (Some su)
  then show ?thesis
    using is_valid_move_loop_Inr [OF Some] by (auto simp: is_valid_move_def)
qed


text \<open>
  Claim C3. Let the unit at \<open>s\<close> belong to the player to move. The attack on every
  enemy unit that stands on one of the four neighbours of \<open>s\<close> is legal and is
  classified as \<open>ATTACK\<close>, whatever the unit's type and whatever the other
  neighbours hold. For every orthogonal neighbour \<open>d\<close> of \<open>s\<close> that holds no unit:
  if the unit is an AI, a Firewall or a Program and an enemy unit stands on one of the
  four neighbours of \<open>s\<close>, the move to \<open>d\<close> is illegal; if the unit is of these
  three types and no enemy is adjacent, the move to a cell \<open>d\<close> of the board is legal
  exactly when it goes in the direction of advance, a smaller row or column for the
  Attacker, a larger one for the Defender; a Tech or a Virus may move to every empty
  neighbour on the board, whatever the direction and whatever stands next to it.
\<close>

theorem engagement_lock:
  assumes "get g s = Some su" and "player su = next_player g"
  shows
   "(\<forall>e \<in> set (iter_adjacent s). \<forall>eu. get g e = Some eu \<and> player su \<noteq> player eu
      \<longrightarrow> is_valid_move g \<lparr>src = s, dst = e\<rparr> = Inr True \<and>
          determine_action g \<lparr>src = s, dst = e\<rparr> = Inr ATTACK) \<and>
    (\<forall>d \<in> set (iter_adjacent s). get g d = None \<longrightarrow>
       (type su \<in> {AI, Firewall, Program} \<and>
          (\<exists>e \<in> set (iter_adjacent s). \<exists>eu. get g e = Some eu \<and> player su \<noteq> player eu)
         \<longrightarrow> is_valid_move g \<lparr>src = s, dst = d\<rparr> = Inr False) \<and>
       (type su \<in> {AI, Firewall, Program} \<and> is_valid_coord g d \<and>
          \<not> (\<exists>e \<in> set (iter_adjacent s). \<exists>eu. get g e = Some eu \<and> player su \<noteq> player eu)
         \<longrightarrow> is_valid_move g \<lparr>src = s, dst = d\<rparr> =
               Inr (if player su = Attacker then row d < row s \<or> col d < col s
                    else row d > row s \<or> col d > col s)) \<and>
       (type su \<in> {Tech, Virus} \<and> is_valid_coord g d
         \<longrightarrow> is_valid_move g \<lparr>src = s, dst = d\<rparr> = Inr True))"
proof -
  let ?E = "\<exists>e \<in> set (iter_adjacent s). \<exists>eu. get g e = Some eu \<and> player su \<noteq> player eu"
  have attack: "\<forall>e \<in> set (iter_adjacent s). \<forall>eu. get g e = Some eu \<and> player su \<noteq> player eu
      \<longrightarrow> is_valid_move g \<lparr>src = s, dst = e\<rparr> = Inr True \<and>
          determine_action g \<lparr>src = s, dst = e\<rparr> = Inr ATTACK"
  proof (intro ballI allI impI)
    fix e eu assume "e \<in> set (iter_adjacent s)" "get g e = Some eu \<and> player su \<noteq> player eu"
    then show "is_valid_move g \<lparr>src = s, dst = e\<rparr> = Inr True \<and>
               determine_action g \<lparr>src = s, dst = e\<rparr> = Inr ATTACK"
      using is_valid_move_attack [OF assms(1,2), of e eu] by simp
  qed
  have moves: "\<forall>d \<in> set (iter_adjacent s). get g d = None \<longrightarrow>
       (type su \<in> {AI, Firewall, Program} \<and> ?E
         \<longrightarrow> is_valid_move g \<lparr>src = s, dst = d\<rparr> = Inr False) \<and>
       (type su \<in> {AI, Firewall, Program} \<and> is_valid_coord g d \<and> \<not> ?E
         \<longrightarrow> is_valid_move g \<lparr>src = s, dst = d\<rparr> =
               Inr (if player su = Attacker then row d < row s \<or> col d < col s
                    else row d > row s \<or> col d > col s)) \<and>
       (type su \<in> {Tech, Virus} \<and> is_valid_coord g d
         \<longrightarrow> is_valid_move g \<lparr>src = s, dst = d\<rparr> = Inr True)"
  proof (intro ballI impI)
    fix d assume adj: "d \<in> set (iter_adjacent s)" and empty: "get g d = None"
    let ?D = "if player su = Attacker then row d < row s \<or> col d < col s
              else row d > row s \<or> col d > col s"
    have dir: "(if player su = Attacker then \<not> (row d - row s > 0 \<or> col d - col s > 0)
                else \<not> (row d - row s < 0 \<or> col d - col s < 0)) = ?D"
      using adj by (cases "player su = Attacker") (auto simp: iter_adjacent_def)
    have e: "is_valid_move g \<lparr>src = s, dst = d\<rparr> =
               Inr (is_valid_coord g d \<and> (type su \<in> {AI, Firewall, Program} \<longrightarrow> ?D \<and> \<not> ?E))"
      using is_valid_move_empty [OF assms adj empty] unfolding dir .
    have locked: "type su \<in> {AI, Firewall, Program} \<and> ?E
        \<longrightarrow> is_valid_move g \<lparr>src = s, dst = d\<rparr> = Inr False"
      unfolding e by simp
    have unlocked: "type su \<in> {AI, Firewall, Program} \<and> is_valid_coord g d \<and> \<not> ?E
        \<longrightarrow> is_valid_move g \<lparr>src = s, dst = d\<rparr> = Inr ?D"
      unfolding e by simp
    have free: "type su \<in> {Tech, Virus} \<and> is_valid_coord g d
        \<longrightarrow> is_valid_move g \<lparr>src = s, dst = d\<rparr> = Inr True"
      unfolding e by (cases "type su") simp_all
    show "(type su \<in> {AI, Firewall, Program} \<and> ?E
         \<longrightarrow> is_valid_move g \<lparr>src = s, dst = d\<rparr> = Inr False) \<and>
       (type su \<in> {AI, Firewall, Program} \<and> is_valid_coord g d \<and> \<not> ?E
         \<longrightarrow> is_valid_move g \<lparr>src = s, dst = d\<rparr> = Inr ?D) \<and>
       (type su \<in> {Tech, Virus} \<and> is_valid_coord g d
         \<longrightarrow> is_valid_move g \<lparr>src = s, dst = d\<rparr> = Inr True)"
      by (intro conjI locked unlocked free)
  qed
  show ?thesis using attack moves by (rule conjI)
qed

theorem engagement_lock_witness:
  "get boxed_state \<lparr>row = 1, col = 2\<rparr> \<noteq> None \<and>
   get boxed_state \<lparr>row = 3, col = 2\<rparr> \<noteq> None \<and>
   get boxed_state \<lparr>row = 2, col = 1\<rparr> \<noteq> None \<and>
   get boxed_state \<lparr>row = 2, col = 3\<rparr> \<noteq> None \<and>
   is_valid_move boxed_state \<lparr>src = \<lparr>row = 2, col = 2\<rparr>, dst = \<lparr>row = 2, col = 3\<rparr>\<rparr> = Inr True \<and>
   determine_action boxed_state \<lparr>src = \<lparr>row = 2, col = 2\<rparr>, dst = \<lparr>row = 2, col = 3\<rparr>\<rparr> = Inr ATTACK \<and>
   is_valid_move program_tech_state \<lparr>src = \<lparr>row = 2, col = 2\<rparr>, dst = \<lparr>row = 1, col = 2\<rparr>\<rparr> = Inr False \<and>
   is_valid_move program_tech_state \<lparr>src = \<lparr>row = 2, col = 2\<rparr>, dst = \<lparr>row = 2, col = 3\<rparr>\<rparr> = Inr True \<and>
   determine_action program_tech_state \<lparr>src = \<lparr>row = 2, col = 2\<rparr>, dst = \<lparr>row = 2, col = 3\<rparr>\<rparr> = Inr ATTACK \<and>
   is_valid_move program_tech_state \<lparr>src = \<lparr>row = 4, col = 0\<rparr>, dst = \<lparr>row = 3, col = 0\<rparr>\<rparr> = Inr True \<and>
   is_valid_move program_tech_state \<lparr>src = \<lparr>row = 4, col = 0\<rparr>, dst = \<lparr>row = 4, col = 1\<rparr>\<rparr> = Inr False \<and>
   is_valid_move program_tech_state \<lparr>src = \<lparr>row = 1, col = 3\<rparr>, dst = \<lparr>row = 1, col = 4\<rparr>\<rparr> = Inr True"
proof -
  let ?g = program_tech_state
  let ?P = "\<lparr>player = Attacker, type = Program, health = 9\<rparr>"
  let ?T = "\<lparr>player = Defender, type = Tech, health = 9\<rparr>"
  let ?F = "\<lparr>player = Attacker, type = Firewall, health = 9\<rparr>"
  let ?V = "\<lparr>player = Attacker, type = Virus, health = 9\<rparr>"
  have np: "next_player ?g = Attacker" by code_simp
  have p: "get ?g \<lparr>row = 2, col = 2\<rparr> = Some ?P" by code_simp
  have t: "get ?g \<lparr>row = 2, col = 3\<rparr> = Some ?T" by code_simp
  have f: "get ?g \<lparr>row = 4, col = 0\<rparr> = Some ?F" by code_simp
  have v: "get ?g \<lparr>row = 1, col = 3\<rparr> = Some ?V" by code_simp
  have e12: "get ?g \<lparr>row = 1, col = 2\<rparr> = None" by code_simp
  have e30: "get ?g \<lparr>row = 3, col = 0\<rparr> = None" by code_simp
  have e41: "get ?g \<lparr>row = 4, col = 1\<rparr> = None" by code_simp
  have e50: "get ?g \<lparr>row = 5, col = 0\<rparr> = None" by code_simp
  have e4m: "get ?g \<lparr>row = 4, col = - 1\<rparr> = None" by code_simp
  have e14: "get ?g \<lparr>row = 1, col = 4\<rparr> = None" by code_simp
  have v30: "is_valid_coord ?g \<lparr>row = 3, col = 0\<rparr>" by code_simp
  have v41: "is_valid_coord ?g \<lparr>row = 4, col = 1\<rparr>" by code_simp
  have v14: "is_valid_coord ?g \<lparr>row = 1, col = 4\<rparr>" by code_simp
  have a1: "\<lparr>row = 1, col = 2\<rparr> \<in> set (iter_adjacent \<lparr>row = 2, col = 2\<rparr>)"
    and a2: "\<lparr>row = 2, col = 3\<rparr> \<in> set (iter_adjacent \<lparr>row = 2, col = 2\<rparr>)"
    and a3: "\<lparr>row = 3, col = 0\<rparr> \<in> set (iter_adjacent \<lparr>row = 4, col = 0\<rparr>)"
    and a4: "\<lparr>row = 4, col = 1\<rparr> \<in> set (iter_adjacent \<lparr>row = 4, col = 0\<rparr>)"
    and a5: "\<lparr>row = 1, col = 4\<rparr> \<in> set (iter_adjacent \<lparr>row = 1, col = 3\<rparr>)"
    by (simp_all add: iter_adjacent_def)
  have enemy: "\<exists>e \<in> set (iter_adjacent \<lparr>row = 2, col = 2\<rparr>).
                 \<exists>eu. get ?g e = Some eu \<and> player ?P \<noteq> player eu"
    using a2 t by (intro bexI [of _ "\<lparr>row = 2, col = 3\<rparr>"] exI [of _ ?T]) simp_all
  have alone: "\<not> (\<exists>e \<in> set (iter_adjacent \<lparr>row = 4, col = 0\<rparr>).
                 \<exists>eu. get ?g e = Some eu \<and> player ?F \<noteq> player eu)"
    using e30 e41 e50 e4m by (simp add: iter_adjacent_def)
  have bn: "next_player boxed_state = Attacker" by code_simp
  have bp: "get boxed_state \<lparr>row = 2, col = 2\<rparr> = Some ?P" by code_simp
  have bt: "get boxed_state \<lparr>row = 2, col = 3\<rparr> = Some ?T" by code_simp
  have boxed:
    "is_valid_move boxed_state \<lparr>src = \<lparr>row = 2, col = 2\<rparr>, dst = \<lparr>row = 2, col = 3\<rparr>\<rparr> = Inr True \<and>
     determine_action boxed_state \<lparr>src = \<lparr>row = 2, col = 2\<rparr>, dst = \<lparr>row = 2, col = 3\<rparr>\<rparr> = Inr ATTACK"
    using engagement_lock [OF bp] bn a2 bt by simp
  have locked:
    "is_valid_move ?g \<lparr>src = \<lparr>row = 2, col = 2\<rparr>, dst = \<lparr>row = 1, col = 2\<rparr>\<rparr> = Inr False \<and>
     is_valid_move ?g \<lparr>src = \<lparr>row = 2, col = 2\<rparr>, dst = \<lparr>row = 2, col = 3\<rparr>\<rparr> = Inr True \<and>
     determine_action ?g \<lparr>src = \<lparr>row = 2, col = 2\<rparr>, dst = \<lparr>row = 2, col = 3\<rparr>\<rparr> = Inr ATTACK"
    using engagement_lock [OF p] np enemy a1 a2 e12 t by simp
  have unlocked:
    "is_valid_move ?g \<lparr>src = \<lparr>row = 4, col = 0\<rparr>, dst = \<lparr>row = 3, col = 0\<rparr>\<rparr> = Inr True \<and>
     is_valid_move ?g \<lparr>src = \<lparr>row = 4, col = 0\<rparr>, dst = \<lparr>row = 4, col = 1\<rparr>\<rparr> = Inr False"
    using engagement_lock [OF f] np alone a3 a4 e30 e41 v30 v41 by simp
  have free:
    "is_valid_move ?g \<lparr>src = \<lparr>row = 1, col = 3\<rparr>, dst = \<lparr>row = 1, col = 4\<rparr>\<rparr> = Inr True"
    using engagement_lock [OF v] np a5 e14 v14 by simp
  have full:
    "get boxed_state \<lparr>row = 1, col = 2\<rparr> \<noteq> None \<and>
     get boxed_state \<lparr>row = 3, col = 2\<rparr> \<noteq> None \<and>
     get boxed_state \<lparr>row = 2, col = 1\<rparr> \<noteq> None \<and>
     get boxed_state \<lparr>row = 2, col = 3\<rparr> \<noteq> None"
    by code_simp
  show ?thesis using full boxed locked unlocked free by simp
qed

section \<open>Move generation\<close>

lemma set_py_range: "set (py_range a b) = {i. a \<le> i \<and> i < b}"
  by (auto simp: py_range_def)

lemma iter_rectangle_from_dim:
  "c \<in> set (iter_rectangle (from_dim n)) \<longleftrightarrow> 0 \<le> row c \<and> row c < n \<and> 0 \<le> col c \<and> col c < n"
proof -
  have "c \<in> set (iter_rectangle (from_dim n)) \<longleftrightarrow>
          (\<exists>r. 0 \<le> r \<and> r < n \<and> (\<exists>k. 0 \<le> k \<and> k < n \<and> c = \<lparr>row = r, col = k\<rparr>))"
    by (auto simp: iter_rectangle_def from_dim_def set_py_range)
  also have "\<dots> \<longleftrightarrow> 0 \<le> row c \<and> row c < n \<and> 0 \<le> col c \<and> col c < n"
    by (cases c) auto
  finally show ?thesis .
qed

lemma player_units_iff:
  "(c, u) \<in> set (player_units g p) \<longleftrightarrow> get g c = Some u \<and> player u = p"
proof -
  have "(c, u) \<in> set (player_units g p) \<longleftrightarrow>
          c \<in> set (iter_rectangle (from_dim (dim (options g)))) \<and> get g c = Some u \<and> player u = p"
    by (auto simp: player_units_def split: option.splits if_splits)
  moreover have "get g c = Some u \<Longrightarrow> c \<in> set (iter_rectangle (from_dim (dim (options g))))"
    using get_Some_valid [of g c u] by (simp add: iter_rectangle_from_dim is_valid_coord_iff)
  ultimately show ?thesis by blast
qed

lemma candidates_from_sound:
  "\<exists>ms. candidates_from g s ds = Inr ms \<and> (\<forall>m \<in> set ms. is_valid_move g m = Inr True)"
proof (induction ds)
  case Nil
  then show ?case by simp
next
  case (Cons d ds)
  obtain b where b: "is_valid_move g \<lparr>src = s, dst = d\<rparr> = Inr b"
    using is_valid_move_total by blast
  from Cons obtain ms where ms: "candidates_from g s ds = Inr ms"
    "\<forall>m \<in> set ms. is_valid_move g m = Inr True" by blast
  show ?case using b ms by (cases b) simp_all
qed

lemma move_candidates_loop_sound:
  assumes "\<forall>(s, u) \<in> set us. is_valid_move g \<lparr>src = s, dst = s\<rparr> = Inr True"
  shows "\<exists>ms. move_candidates_loop g us = Inr ms \<and>
           (\<forall>m \<in> set ms. is_valid_move g m = Inr True) \<and>
           (\<forall>(s, u) \<in> set us. \<lparr>src = s, dst = s\<rparr> \<in> set ms) \<and>
           (ms = [] \<longleftrightarrow> us = [])"
  using assms
proof (induction us)
  case Nil
  then show ?case by simp
next
  case (Cons su us)
  obtain s u where su: "su = (s, u)" by (cases su)
  obtain ms1 where ms1: "candidates_from g s (iter_adjacent s) = Inr ms1"
    "\<forall>m \<in> set ms1. is_valid_move g m = Inr True"
    using candidates_from_sound by blast
  from Cons obtain ms2 where ms2: "move_candidates_loop g us = Inr ms2"
    "\<forall>m \<in> set ms2. is_valid_move g m = Inr True"
    "\<forall>(s, u) \<in> set us. \<lparr>src = s, dst = s\<rparr> \<in> set ms2"
    by auto
  have self: "is_valid_move g \<lparr>src = s, dst = s\<rparr> = Inr True"
    using Cons.prems su by simp
  have eq: "move_candidates_loop g (su # us) = Inr (ms1 @ [\<lparr>src = s, dst = s\<rparr>] @ ms2)"
    using su ms1(1) ms2(1) by simp
  show ?case
    unfolding eq using ms1(2) ms2(2,3) self su by auto
qed

lemma move_candidates_valid:
  "\<exists>ms. move_candidates g = Inr ms \<and> (\<forall>m \<in> set ms. is_valid_move g m = Inr True)"
proof -
  have "\<forall>(s, u) \<in> set (player_units g (next_player g)). is_valid_move g \<lparr>src = s, dst = s\<rparr> = Inr True"
    by (auto simp: player_units_iff is_valid_move_self)
  from move_candidates_loop_sound [OF this] show ?thesis
    unfolding move_candidates_def by blast
qed

text \<open>
  Claim C10. \<open>move_candidates\<close> always returns a list; every move in it is accepted by
  \<open>is_valid_move\<close> in the same state; for every unit of the player to move the
  self-targeting pair is in the list and is accepted by \<open>is_valid_move\<close>; so the
  list is empty exactly when the player to move has no unit on the board.
\<close>

theorem move_candidates_sound:
  "\<exists>ms. move_candidates g = Inr ms \<and>
     (\<forall>m \<in> set ms. is_valid_move g m = Inr True) \<and>
     (\<forall>c u. get g c = Some u \<and> player u = next_player g \<longrightarrow>
        \<lparr>src = c, dst = c\<rparr> \<in> set ms \<and> is_valid_move g \<lparr>src = c, dst = c\<rparr> = Inr True) \<and>
     (ms = [] \<longleftrightarrow> \<not> (\<exists>c u. get g c = Some u \<and> player u = next_player g))"
proof -
  let ?us = "player_units g (next_player g)"
  have self: "\<forall>(s, u) \<in> set ?us. is_valid_move g \<lparr>src = s, dst = s\<rparr> = Inr True"
    by (auto simp: player_units_iff is_valid_move_self)
  from move_candidates_loop_sound [OF self]
  obtain ms where ms: "move_candidates_loop g ?us = Inr ms"
    "\<forall>m \<in> set ms. is_valid_move g m = Inr True"
    "\<forall>(s, u) \<in> set ?us. \<lparr>src = s, dst = s\<rparr> \<in> set ms"
    "ms = [] \<longleftrightarrow> ?us = []"
    by blast
  have a: "\<forall>c u. get g c = Some u \<and> player u = next_player g \<longrightarrow>
        \<lparr>src = c, dst = c\<rparr> \<in> set ms \<and> is_valid_move g \<lparr>src = c, dst = c\<rparr> = Inr True"
    using ms(3) by (auto simp: player_units_iff is_valid_move_self)
  have "?us = [] \<longleftrightarrow> \<not> (\<exists>c u. (c, u) \<in> set ?us)"
    by (cases ?us) auto
  then have b: "ms = [] \<longleftrightarrow> \<not> (\<exists>c u. get g c = Some u \<and> player u = next_player g)"
    using ms(4) by (simp add: player_units_iff)
  show ?thesis
    using ms(1,2) a b unfolding move_candidates_def by blast
qed

theorem move_candidates_sound_witness:
  "\<exists>ms. move_candidates (new_game options_5) = Inr ms \<and> ms \<noteq> [] \<and>
     \<lparr>src = \<lparr>row = 4, col = 4\<rparr>, dst = \<lparr>row = 4, col = 4\<rparr>\<rparr> \<in> set ms \<and>
     is_valid_move (new_game options_5) \<lparr>src = \<lparr>row = 4, col = 4\<rparr>, dst = \<lparr>row = 4, col = 4\<rparr>\<rparr> = Inr True \<and>
     (\<forall>m \<in> set ms. is_valid_move (new_game options_5) m = Inr True)"
proof -
  have u: "get (new_game options_5) \<lparr>row = 4, col = 4\<rparr> = Some \<lparr>player = Attacker, type = AI, health = 9\<rparr>"
    by code_simp
  have n: "next_player (new_game options_5) = Attacker"
    by code_simp
  have own: "get (new_game options_5) \<lparr>row = 4, col = 4\<rparr> = Some \<lparr>player = Attacker, type = AI, health = 9\<rparr> \<and>
             player \<lparr>player = Attacker, type = AI, health = 9\<rparr> = next_player (new_game options_5)"
    using u n by simp
  show ?thesis
    using move_candidates_sound [of "new_game options_5"] own by blast
qed

section \<open>Coordinate text notation\<close>

lemma find_from_bounds:
  "find_from xs c i = - 1 \<or> (i \<le> find_from xs c i \<and> find_from xs c i < i + int (length xs))"
proof (induction xs arbitrary: i)
  case Nil
  then show ?case by simp
next
  case (Cons x xs)
  show ?case
  proof (cases "x = c")
    case True
    then show ?thesis by simp
  next
    case False
    then show ?thesis using Cons [of "i + 1"] by auto
  qed
qed

lemma find_from_neg: "0 \<le> i \<Longrightarrow> find_from xs c i = - 1 \<longleftrightarrow> c \<notin> set xs"
proof (induction xs arbitrary: i)
  case Nil
  then show ?case by simp
next
  case (Cons x xs)
  show ?case
  proof (cases "x = c")
    case True
    then show ?thesis using Cons.prems by simp
  next
    case False
    then show ?thesis using Cons.IH [of "i + 1"] Cons.prems by simp
  qed
qed

lemma find_char_neg: "find_char xs c = - 1 \<longleftrightarrow> c \<notin> set xs"
  by (simp add: find_char_def find_from_neg)

lemma find_char_range: "- 1 \<le> find_char xs c \<and> find_char xs c < int (length xs)"
  using find_from_bounds [of xs c 0] by (auto simp: find_char_def)

lemma char_eq_code: "(c = d) = (of_char c = (of_char d :: nat))"
  by simp

lemma upper_letters:
  "c \<in> set ''ABCDEFGHIJKLMNOPQRSTUVWXYZ'' \<longleftrightarrow> 65 \<le> (of_char c :: nat) \<and> (of_char c :: nat) \<le> 90"
  by (simp add: char_eq_code) arith

lemma lower_letters:
  "c \<in> set ''abcdefghijklmnopqrstuvwxyz'' \<longleftrightarrow> 97 \<le> (of_char c :: nat) \<and> (of_char c :: nat) \<le> 122"
  by (simp add: char_eq_code) arith

lemma of_char_lt_256: "(of_char c :: nat) < 256"
  by (cases c) simp

lemma upper_char_letter:
  "upper_char a \<in> set ''ABCDEFGHIJKLMNOPQRSTUVWXYZ'' \<longleftrightarrow>
     a \<in> set ''ABCDEFGHIJKLMNOPQRSTUVWXYZabcdefghijklmnopqrstuvwxyz''"
proof -
  have split: "a \<in> set ''ABCDEFGHIJKLMNOPQRSTUVWXYZabcdefghijklmnopqrstuvwxyz'' \<longleftrightarrow>
        a \<in> set ''ABCDEFGHIJKLMNOPQRSTUVWXYZ'' \<or> a \<in> set ''abcdefghijklmnopqrstuvwxyz''"
    by auto
  have oc: "(of_char (upper_char a) :: nat) =
        (if 97 \<le> (of_char a :: nat) \<and> (of_char a :: nat) \<le> 122 then of_char a - 32 else of_char a)"
    using of_char_lt_256 [of a] by (auto simp: upper_char_def)
  show ?thesis
    unfolding split upper_letters lower_letters oc by auto
qed


lemma hex_digits:
  "c \<in> set ''0123456789abcdef'' \<longleftrightarrow>
     (48 \<le> (of_char c :: nat) \<and> (of_char c :: nat) \<le> 57) \<or>
     (97 \<le> (of_char c :: nat) \<and> (of_char c :: nat) \<le> 102)"
  by (simp add: char_eq_code) arith

lemma hex_digits_any_case:
  "c \<in> set ''0123456789abcdefABCDEF'' \<longleftrightarrow>
     (48 \<le> (of_char c :: nat) \<and> (of_char c :: nat) \<le> 57) \<or>
     (97 \<le> (of_char c :: nat) \<and> (of_char c :: nat) \<le> 102) \<or>
     (65 \<le> (of_char c :: nat) \<and> (of_char c :: nat) \<le> 70)"
  by (simp add: char_eq_code) arith

lemma lower_char_hex:
  "lower_char b \<in> set ''0123456789abcdef'' \<longleftrightarrow> b \<in> set ''0123456789abcdefABCDEF''"
proof -
  have oc: "(of_char (lower_char b) :: nat) =
        (if 65 \<le> (of_char b :: nat) \<and> (of_char b :: nat) \<le> 90 then of_char b + 32 else of_char b)"
    using of_char_lt_256 [of b] by (auto simp: lower_char_def)
  show ?thesis
    unfolding hex_digits hex_digits_any_case oc by auto
qed

lemma parse_row:
  "(find_char ''ABCDEFGHIJKLMNOPQRSTUVWXYZ'' (upper_char a) = - 1 \<longleftrightarrow>
      a \<notin> set ''ABCDEFGHIJKLMNOPQRSTUVWXYZabcdefghijklmnopqrstuvwxyz'') \<and>
   - 1 \<le> find_char ''ABCDEFGHIJKLMNOPQRSTUVWXYZ'' (upper_char a) \<and>
   find_char ''ABCDEFGHIJKLMNOPQRSTUVWXYZ'' (upper_char a) < 26"
  using find_char_range [of "''ABCDEFGHIJKLMNOPQRSTUVWXYZ''" "upper_char a"]
  unfolding find_char_neg upper_char_letter by simp

lemma parse_col:
  "(find_char ''0123456789abcdef'' (lower_char b) = - 1 \<longleftrightarrow>
      b \<notin> set ''0123456789abcdefABCDEF'') \<and>
   - 1 \<le> find_char ''0123456789abcdef'' (lower_char b) \<and>
   find_char ''0123456789abcdef'' (lower_char b) < 16"
  using find_char_range [of "''0123456789abcdef''" "lower_char b"]
  unfolding find_char_neg lower_char_hex by simp

text \<open>
  Claim C9, as amended. The statement is for the input strings whose code points are
  all below 256, the strings of this model. Let \<open>t\<close> be the input with leading and
  trailing whitespace stripped and every separator character removed. \<open>Coord.from_string\<close> returns no
  coordinate exactly when the length of \<open>t\<close> is not 2, and \<open>CoordPair.from_string\<close>
  exactly when it is not 4. With the right length a coordinate is returned for every
  content: a row character outside \<open>A-Z\<close> and \<open>a-z\<close> gives the row \<open>-1\<close>, a
  column character outside \<open>0-9\<close>, \<open>a-f\<close> and \<open>A-F\<close> gives the column \<open>-1\<close>, and
  otherwise the row is in \<open>[0, 26)\<close> and the column in \<open>[0, 16)\<close>.
\<close>

theorem from_string_results:
  "(length (remove_separators (strip s)) \<noteq> 2 \<longrightarrow> Coord_from_string s = None) \<and>
   (\<forall>a b. remove_separators (strip s) = [a, b] \<longrightarrow>
      (\<exists>c. Coord_from_string s = Some c \<and>
         (row c = - 1 \<longleftrightarrow> a \<notin> set ''ABCDEFGHIJKLMNOPQRSTUVWXYZabcdefghijklmnopqrstuvwxyz'') \<and>
         (col c = - 1 \<longleftrightarrow> b \<notin> set ''0123456789abcdefABCDEF'') \<and>
         - 1 \<le> row c \<and> row c < 26 \<and> - 1 \<le> col c \<and> col c < 16)) \<and>
   (length (remove_separators (strip s)) \<noteq> 4 \<longrightarrow> CoordPair_from_string s = None) \<and>
   (\<forall>a b a' b'. remove_separators (strip s) = [a, b, a', b'] \<longrightarrow>
      (\<exists>p. CoordPair_from_string s = Some p \<and>
         (row (src p) = - 1 \<longleftrightarrow> a \<notin> set ''ABCDEFGHIJKLMNOPQRSTUVWXYZabcdefghijklmnopqrstuvwxyz'') \<and>
         (col (src p) = - 1 \<longleftrightarrow> b \<notin> set ''0123456789abcdefABCDEF'') \<and>
         (row (dst p) = - 1 \<longleftrightarrow> a' \<notin> set ''ABCDEFGHIJKLMNOPQRSTUVWXYZabcdefghijklmnopqrstuvwxyz'') \<and>
         (col (dst p) = - 1 \<longleftrightarrow> b' \<notin> set ''0123456789abcdefABCDEF'')))"
proof (intro conjI allI impI)
  assume "length (remove_separators (strip s)) \<noteq> 2"
  then show "Coord_from_string s = None" by (simp add: Coord_from_string_def Let_def)
next
  fix a b assume t: "remove_separators (strip s) = [a, b]"
  have "Coord_from_string s =
          Some \<lparr>row = find_char ''ABCDEFGHIJKLMNOPQRSTUVWXYZ'' (upper_char a),
                col = find_char ''0123456789abcdef'' (lower_char b)\<rparr>"
    by (simp add: Coord_from_string_def Let_def t)
  then show "\<exists>c. Coord_from_string s = Some c \<and>
         (row c = - 1 \<longleftrightarrow> a \<notin> set ''ABCDEFGHIJKLMNOPQRSTUVWXYZabcdefghijklmnopqrstuvwxyz'') \<and>
         (col c = - 1 \<longleftrightarrow> b \<notin> set ''0123456789abcdefABCDEF'') \<and>
         - 1 \<le> row c \<and> row c < 26 \<and> - 1 \<le> col c \<and> col c < 16"
    using parse_row [of a] parse_col [of b] by simp
next
  assume "length (remove_separators (strip s)) \<noteq> 4"
  then show "CoordPair_from_string s = None" by (simp add: CoordPair_from_string_def Let_def)
next
  fix a b a' b' assume t: "remove_separators (strip s) = [a, b, a', b']"
  have "CoordPair_from_string s =
          Some \<lparr>src = \<lparr>row = find_char ''ABCDEFGHIJKLMNOPQRSTUVWXYZ'' (upper_char a),
                       col = find_char ''0123456789abcdef'' (lower_char b)\<rparr>,
                dst = \<lparr>row = find_char ''ABCDEFGHIJKLMNOPQRSTUVWXYZ'' (upper_char a'),
                       col = find_char ''0123456789abcdef'' (lower_char b')\<rparr>\<rparr>"
    by (simp add: CoordPair_from_string_def Let_def t)
  then show "\<exists>p. CoordPair_from_string s = Some p \<and>
         (row (src p) = - 1 \<longleftrightarrow> a \<notin> set ''ABCDEFGHIJKLMNOPQRSTUVWXYZabcdefghijklmnopqrstuvwxyz'') \<and>
         (col (src p) = - 1 \<longleftrightarrow> b \<notin> set ''0123456789abcdefABCDEF'') \<and>
         (row (dst p) = - 1 \<longleftrightarrow> a' \<notin> set ''ABCDEFGHIJKLMNOPQRSTUVWXYZabcdefghijklmnopqrstuvwxyz'') \<and>
         (col (dst p) = - 1 \<longleftrightarrow> b' \<notin> set ''0123456789abcdefABCDEF'')"
    using parse_row [of a] parse_col [of b] parse_row [of a'] parse_col [of b'] by simp
qed

theorem from_string_results_witness:
  "Coord_from_string ''D2 D3'' = None \<and>
   Coord_from_string '' d-F '' = Some \<lparr>row = 3, col = 15\<rparr> \<and>
   CoordPair_from_string ''D2'' = None \<and>
   CoordPair_from_string ''D2 D3'' = Some \<lparr>src = \<lparr>row = 3, col = 2\<rparr>, dst = \<lparr>row = 3, col = 3\<rparr>\<rparr>"
proof -
  have t1: "remove_separators (strip ''D2 D3'') = [CHR ''D'', CHR ''2'', CHR ''D'', CHR ''3'']"
    by code_simp
  have t2: "remove_separators (strip '' d-F '') = [CHR ''d'', CHR ''F'']"
    by code_simp
  have t3: "remove_separators (strip ''D2'') = [CHR ''D'', CHR ''2'']"
    by code_simp
  have l1: "length (remove_separators (strip ''D2 D3'')) \<noteq> 2" unfolding t1 by simp
  have l3: "length (remove_separators (strip ''D2'')) \<noteq> 4" unfolding t3 by simp
  have c2: "Coord_from_string '' d-F '' = Some \<lparr>row = 3, col = 15\<rparr>" by code_simp
  have c4: "CoordPair_from_string ''D2 D3'' = Some \<lparr>src = \<lparr>row = 3, col = 2\<rparr>, dst = \<lparr>row = 3, col = 3\<rparr>\<rparr>"
    by code_simp
  show ?thesis
    using from_string_results [of "''D2 D3''"] from_string_results [of "''D2''"]
      from_string_results [of "'' d-F ''"] l1 l3 c2 c4 t1 t2
    by simp
qed

theorem from_string_out_of_range:
  "Coord_from_string ''?1'' = Some \<lparr>row = - 1, col = 1\<rparr> \<and>
   CoordPair_from_string ''A0 Zz'' = Some \<lparr>src = \<lparr>row = 0, col = 0\<rparr>, dst = \<lparr>row = 25, col = - 1\<rparr>\<rparr>"
  by code_simp

section \<open>Health modification\<close>

lemma options_remove_dead [simp]: "options (remove_dead g c) = options g"
  by (simp add: remove_dead_def Let_def split: option.splits)

lemma next_player_remove_dead [simp]: "next_player (remove_dead g c) = next_player g"
  by (simp add: remove_dead_def Let_def split: option.splits)

lemma board_flag_update [simp]:
  "wf_board (g\<lparr>attacker_has_ai := b\<rparr>) = wf_board g"
  "wf_board (g\<lparr>defender_has_ai := b\<rparr>) = wf_board g"
  "get (g\<lparr>attacker_has_ai := b\<rparr>) c = get g c"
  "get (g\<lparr>defender_has_ai := b\<rparr>) c = get g c"
  by (simp_all add: wf_board_def get_def is_valid_coord_def)

lemma wf_board_remove_dead: "wf_board g \<Longrightarrow> wf_board (remove_dead g c)"
  by (simp add: remove_dead_def Let_def wf_board_set_cell split: option.splits)

lemma get_remove_dead:
  assumes "wf_board g"
  shows "get (remove_dead g c) c' =
           (if c' = c then (case get g c of None \<Rightarrow> None
                            | Some u \<Rightarrow> if is_alive u then Some u else None)
            else get g c')"
proof (cases "get g c")
  case None
  then show ?thesis by (simp add: remove_dead_def)
next
  case (Some u)
  then have v: "is_valid_coord g c" by (rule get_Some_valid)
  show ?thesis
    using Some v by (simp add: remove_dead_def Let_def get_set_cell [OF assms])
qed

lemma options_mod_health [simp]: "options (mod_health g c d) = options g"
  by (simp add: mod_health_def split: option.splits)

lemma next_player_mod_health [simp]: "next_player (mod_health g c d) = next_player g"
  by (simp add: mod_health_def split: option.splits)

lemma wf_board_mod_health: "wf_board g \<Longrightarrow> wf_board (mod_health g c d)"
  by (simp add: mod_health_def wf_board_remove_dead wf_board_set_cell split: option.splits)

lemma get_mod_health:
  assumes "wf_board g"
  shows "get (mod_health g c d) c' =
           (if c' = c then (case get g c of None \<Rightarrow> None
                            | Some t \<Rightarrow> if is_alive (Unit_mod_health t d)
                                         then Some (Unit_mod_health t d) else None)
            else get g c')"
proof (cases "get g c")
  case None
  then show ?thesis by (simp add: mod_health_def)
next
  case (Some t)
  then have v: "is_valid_coord g c" by (rule get_Some_valid)
  have w: "wf_board (set_cell g c (Some (Unit_mod_health t d)))"
    using assms by (rule wf_board_set_cell)
  show ?thesis
    using Some v by (simp add: mod_health_def get_remove_dead [OF w] get_set_cell [OF assms])
qed

text \<open>A unit with a health from 1 to 9 that loses \<open>n \<ge> 0\<close> points.\<close>

lemma damaged_unit:
  assumes "0 < health u" "health u \<le> 9" "0 \<le> n"
  shows "(if is_alive (Unit_mod_health u (- n)) then Some (Unit_mod_health u (- n)) else None) =
         (if health u - n \<le> 0 then None else Some (u\<lparr>health := health u - n\<rparr>))"
  using assms by (simp add: is_alive_def Unit_mod_health_def Let_def)

lemma damage_table_entry:
  "1 \<le> damage_table ! UnitType_value a ! UnitType_value b \<and>
   damage_table ! UnitType_value a ! UnitType_value b \<le> 9"
  by (cases a; cases b) (simp_all add: damage_table_def)

section \<open>Text rendering\<close>

lemma to_string_valid:
  assumes "is_valid_coord g c"
  shows "\<exists>x. to_string c = Inr x"
proof -
  have r: "0 \<le> row c" and k: "0 \<le> col c"
    using assms by (simp_all add: is_valid_coord_iff)
  obtain x where x: "row_string c = Inr x"
    using r by (cases "row c < 26") (simp_all add: row_string_def py_index_def)
  obtain y where y: "col_string c = Inr y"
    using k by (cases "col c < 16") (simp_all add: col_string_def py_index_def)
  show ?thesis by (simp add: to_string_def x y)
qed

section \<open>Attack\<close>

text \<open>
  What \<open>perform_move\<close> does on an attack: the attacker's own table entry
  \<open>damage_table[src.type][dst.type]\<close> is subtracted from the attacker at \<open>src\<close>, and
  the target's entry \<open>damage_table[dst.type][src.type]\<close> from the target at \<open>dst\<close>.
\<close>

lemma perform_move_attack:
  assumes "wf_board g" "healths_ok g"
    and "get g s = Some su" "player su = next_player g"
    and "e \<in> set (iter_adjacent s)" "get g e = Some eu" "player su \<noteq> player eu"
  shows "\<exists>g' msg. perform_move g \<lparr>src = s, dst = e\<rparr> = Inr (g', True, msg) \<and>
     get g' s =
       (if health su - damage_table ! UnitType_value (type su) ! UnitType_value (type eu) \<le> 0 then None
        else Some (su\<lparr>health := health su - damage_table ! UnitType_value (type su) ! UnitType_value (type eu)\<rparr>)) \<and>
     get g' e =
       (if health eu - damage_table ! UnitType_value (type eu) ! UnitType_value (type su) \<le> 0 then None
        else Some (eu\<lparr>health := health eu - damage_table ! UnitType_value (type eu) ! UnitType_value (type su)\<rparr>)) \<and>
     (\<forall>c. c \<noteq> s \<and> c \<noteq> e \<longrightarrow> get g' c = get g c)"
proof -
  let ?ds = "damage_table ! UnitType_value (type su) ! UnitType_value (type eu)"
  let ?de = "damage_table ! UnitType_value (type eu) ! UnitType_value (type su)"
  let ?g1 = "mod_health g s (- ?ds)"
  let ?g2 = "mod_health ?g1 e (- ?de)"
  have ne: "e \<noteq> s" using assms(5) by (rule iter_adjacent_neq)
  have valid: "is_valid_move g \<lparr>src = s, dst = e\<rparr> = Inr True"
    and act: "determine_action g \<lparr>src = s, dst = e\<rparr> = Inr ATTACK"
    using is_valid_move_attack [OF assms(3-7)] by simp_all
  obtain x where x: "to_string s = Inr x"
    using to_string_valid [OF get_Some_valid [OF assms(3)]] by blast
  obtain y where y: "to_string e = Inr y"
    using to_string_valid [OF get_Some_valid [OF assms(6)]] by blast
  have pm: "\<exists>msg. perform_move g \<lparr>src = s, dst = e\<rparr> = Inr (?g2, True, msg)"
    by (simp add: perform_move_def valid act perform_attack_def assms(3,6) Let_def x y)
  have w1: "wf_board ?g1" using assms(1) by (rule wf_board_mod_health)
  have hs: "0 < health su \<and> health su \<le> 9" using healths_ok_get [OF assms(1,2,3)] .
  have he: "0 < health eu \<and> health eu \<le> 9" using healths_ok_get [OF assms(1,2,6)] .
  have ds: "0 \<le> ?ds" and de: "0 \<le> ?de"
    using damage_table_entry [of "type su" "type eu"] damage_table_entry [of "type eu" "type su"]
    by simp_all
  have "get ?g2 s = get ?g1 s"
    using ne by (simp add: get_mod_health [OF w1])
  also have "\<dots> = (if is_alive (Unit_mod_health su (- ?ds)) then Some (Unit_mod_health su (- ?ds)) else None)"
    by (simp add: get_mod_health [OF assms(1)] assms(3))
  also have "\<dots> = (if health su - ?ds \<le> 0 then None else Some (su\<lparr>health := health su - ?ds\<rparr>))"
    using hs ds by (intro damaged_unit) simp_all
  finally have gs: "get ?g2 s = (if health su - ?ds \<le> 0 then None else Some (su\<lparr>health := health su - ?ds\<rparr>))" .
  have "get ?g1 e = Some eu"
    using ne by (simp add: get_mod_health [OF assms(1)] assms(6))
  then have "get ?g2 e = (if is_alive (Unit_mod_health eu (- ?de)) then Some (Unit_mod_health eu (- ?de)) else None)"
    by (simp add: get_mod_health [OF w1])
  also have "\<dots> = (if health eu - ?de \<le> 0 then None else Some (eu\<lparr>health := health eu - ?de\<rparr>))"
    using he de by (intro damaged_unit) simp_all
  finally have ge: "get ?g2 e = (if health eu - ?de \<le> 0 then None else Some (eu\<lparr>health := health eu - ?de\<rparr>))" .
  have other: "\<forall>c. c \<noteq> s \<and> c \<noteq> e \<longrightarrow> get ?g2 c = get g c"
    by (simp add: get_mod_health [OF w1] get_mod_health [OF assms(1)])
  from pm obtain msg where "perform_move g \<lparr>src = s, dst = e\<rparr> = Inr (?g2, True, msg)" by blast
  then show ?thesis using gs ge other by blast
qed


text \<open>
  Claim C1, at a state where the code departs from it. An Attacker Virus with health 9
  at C2 attacks the Defender AI with health 9 at C3. By \<open>damage_amount\<close> the Virus
  deals 9 to the AI and the AI deals 3 to the Virus, so the claim leaves the AI removed
  and the Virus at health 6. \<open>perform_move\<close> subtracts the 9 from the attacking
  Virus, which is removed, and the 3 from the AI, which stays with health 6.
\<close>

theorem attack_damage_swapped:
  "damage_amount \<lparr>player = Attacker, type = Virus, health = 9\<rparr> \<lparr>player = Defender, type = AI, health = 9\<rparr> = 9 \<and>
   damage_amount \<lparr>player = Defender, type = AI, health = 9\<rparr> \<lparr>player = Attacker, type = Virus, health = 9\<rparr> = 3 \<and>
   get virus_ai_state \<lparr>row = 2, col = 2\<rparr> = Some \<lparr>player = Attacker, type = Virus, health = 9\<rparr> \<and>
   get virus_ai_state \<lparr>row = 2, col = 3\<rparr> = Some \<lparr>player = Defender, type = AI, health = 9\<rparr> \<and>
   health_after virus_ai_state \<lparr>src = \<lparr>row = 2, col = 2\<rparr>, dst = \<lparr>row = 2, col = 3\<rparr>\<rparr> \<lparr>row = 2, col = 2\<rparr> = Inr None \<and>
   health_after virus_ai_state \<lparr>src = \<lparr>row = 2, col = 2\<rparr>, dst = \<lparr>row = 2, col = 3\<rparr>\<rparr> \<lparr>row = 2, col = 3\<rparr> = Inr (Some 6)"
  by code_simp

text \<open>
  Claim C2, as amended. When an Attacker Virus with health 9 attacks an orthogonally
  adjacent Defender Tech with health 9, the move succeeds and leaves the Tech at
  health 3 and the Virus at health 3: both table entries, Virus against Tech and Tech
  against Virus, are 6.
\<close>

theorem virus_attacks_tech:
  assumes "wf_game g" and "next_player g = Attacker"
    and "get g s = Some \<lparr>player = Attacker, type = Virus, health = 9\<rparr>"
    and "e \<in> set (iter_adjacent s)"
    and "get g e = Some \<lparr>player = Defender, type = Tech, health = 9\<rparr>"
  shows "\<exists>g' msg. perform_move g \<lparr>src = s, dst = e\<rparr> = Inr (g', True, msg) \<and>
     get g' e = Some \<lparr>player = Defender, type = Tech, health = 3\<rparr> \<and>
     get g' s = Some \<lparr>player = Attacker, type = Virus, health = 3\<rparr>"
proof -
  have w: "wf_board g" and h: "healths_ok g"
    using assms(1) by (simp_all add: wf_game_def)
  have "\<exists>g' msg. perform_move g \<lparr>src = s, dst = e\<rparr> = Inr (g', True, msg) \<and>
     get g' s = Some \<lparr>player = Attacker, type = Virus, health = 3\<rparr> \<and>
     get g' e = Some \<lparr>player = Defender, type = Tech, health = 3\<rparr> \<and>
     (\<forall>c. c \<noteq> s \<and> c \<noteq> e \<longrightarrow> get g' c = get g c)"
    using perform_move_attack [OF w h assms(3) _ assms(4) assms(5)] assms(2)
    by (simp add: damage_table_def)
  then show ?thesis by blast
qed

theorem virus_attacks_tech_witness:
  "\<exists>g' msg. perform_move virus_tech_state \<lparr>src = \<lparr>row = 2, col = 2\<rparr>, dst = \<lparr>row = 2, col = 3\<rparr>\<rparr> = Inr (g', True, msg) \<and>
     get g' \<lparr>row = 2, col = 3\<rparr> = Some \<lparr>player = Defender, type = Tech, health = 3\<rparr> \<and>
     get g' \<lparr>row = 2, col = 2\<rparr> = Some \<lparr>player = Attacker, type = Virus, health = 3\<rparr>"
proof -
  have w: "wf_game virus_tech_state" by code_simp
  have n: "next_player virus_tech_state = Attacker" by code_simp
  have v: "get virus_tech_state \<lparr>row = 2, col = 2\<rparr> = Some \<lparr>player = Attacker, type = Virus, health = 9\<rparr>"
    by code_simp
  have t: "get virus_tech_state \<lparr>row = 2, col = 3\<rparr> = Some \<lparr>player = Defender, type = Tech, health = 9\<rparr>"
    by code_simp
  have a: "\<lparr>row = 2, col = 3\<rparr> \<in> set (iter_adjacent \<lparr>row = 2, col = 2\<rparr>)"
    by (simp add: iter_adjacent_def)
  show ?thesis using virus_attacks_tech [OF w n v a t] .
qed

theorem virus_attacks_tech_not_eight:
  "health_after virus_tech_state \<lparr>src = \<lparr>row = 2, col = 2\<rparr>, dst = \<lparr>row = 2, col = 3\<rparr>\<rparr> \<lparr>row = 2, col = 3\<rparr> = Inr (Some 3) \<and>
   health_after virus_tech_state \<lparr>src = \<lparr>row = 2, col = 2\<rparr>, dst = \<lparr>row = 2, col = 3\<rparr>\<rparr> \<lparr>row = 2, col = 2\<rparr> = Inr (Some 3) \<and>
   health_after virus_tech_state \<lparr>src = \<lparr>row = 2, col = 2\<rparr>, dst = \<lparr>row = 2, col = 3\<rparr>\<rparr> \<lparr>row = 2, col = 2\<rparr> \<noteq> Inr (Some 8)"
  by code_simp

section \<open>Self-destruction\<close>

lemma py_range_3: "py_range (x - 1) (2 + x) = [x - 1, x, x + 1]"
  by (simp add: py_range_def upto_rec1)

lemma iter_range_1:
  "iter_range s 1 =
    [\<lparr>row = row s - 1, col = col s - 1\<rparr>, \<lparr>row = row s - 1, col = col s\<rparr>, \<lparr>row = row s - 1, col = col s + 1\<rparr>,
     \<lparr>row = row s, col = col s - 1\<rparr>, \<lparr>row = row s, col = col s\<rparr>, \<lparr>row = row s, col = col s + 1\<rparr>,
     \<lparr>row = row s + 1, col = col s - 1\<rparr>, \<lparr>row = row s + 1, col = col s\<rparr>, \<lparr>row = row s + 1, col = col s + 1\<rparr>]"
  by (simp add: iter_range_def py_range_3)

lemma distinct_iter_range_1: "distinct (iter_range s 1)"
  by (simp add: iter_range_1)

lemma in_iter_range_1:
  "c \<in> set (iter_range s 1) \<longleftrightarrow> \<bar>row c - row s\<bar> \<le> 1 \<and> \<bar>col c - col s\<bar> \<le> 1"
proof -
  have r: "\<bar>row c - row s\<bar> \<le> 1 \<longleftrightarrow> row c = row s - 1 \<or> row c = row s \<or> row c = row s + 1"
    by arith
  have k: "\<bar>col c - col s\<bar> \<le> 1 \<longleftrightarrow> col c = col s - 1 \<or> col c = col s \<or> col c = col s + 1"
    by arith
  show ?thesis
    unfolding r k iter_range_1 by (cases c) auto
qed

lemma suicide_loop_result:
  assumes "wf_board g" "distinct cs"
  shows "wf_board (fst (suicide_loop g n cs)) \<and>
     (\<forall>c. get (fst (suicide_loop g n cs)) c =
        (if c \<in> set cs
         then (case get g c of None \<Rightarrow> None
               | Some t \<Rightarrow> if is_alive (Unit_mod_health t (- 2))
                            then Some (Unit_mod_health t (- 2)) else None)
         else get g c)) \<and>
     snd (suicide_loop g n cs) = n + 2 * int (length (filter (\<lambda>c. get g c \<noteq> None) cs))"
  using assms
proof (induction cs arbitrary: g n)
  case Nil
  then show ?case by simp
next
  case (Cons coord rest)
  have d: "distinct rest" and notin: "coord \<notin> set rest"
    using Cons.prems(2) by simp_all
  show ?case
  proof (cases "get g coord")
    case None
    then show ?thesis
      using Cons.IH [OF Cons.prems(1) d, of n] by auto
  next
    case (Some t)
    let ?g1 = "mod_health g coord (- 2)"
    have w1: "wf_board ?g1" using Cons.prems(1) by (rule wf_board_mod_health)
    note g1 = get_mod_health [OF Cons.prems(1), of coord "- 2"]
    have same: "\<And>c. c \<in> set rest \<Longrightarrow> get ?g1 c = get g c"
      using notin by (auto simp: g1)
    have cnt: "filter (\<lambda>c. get ?g1 c \<noteq> None) rest = filter (\<lambda>c. get g c \<noteq> None) rest"
      using same by (intro filter_cong) simp_all
    have step: "suicide_loop g n (coord # rest) = suicide_loop ?g1 (n + 2) rest"
      using Some by simp
    note ih = Cons.IH [OF w1 d, of "n + 2"]
    have a: "wf_board (fst (suicide_loop g n (coord # rest)))"
      unfolding step using ih by blast
    have b: "get (fst (suicide_loop g n (coord # rest))) c =
        (if c \<in> set (coord # rest)
         then (case get g c of None \<Rightarrow> None
               | Some t \<Rightarrow> if is_alive (Unit_mod_health t (- 2))
                            then Some (Unit_mod_health t (- 2)) else None)
         else get g c)" for c
    proof (cases "c \<in> set rest")
      case True
      then have "c \<noteq> coord" using notin by blast
      then show ?thesis unfolding step using ih True same [OF True] by simp
    next
      case False
      then have "get (fst (suicide_loop ?g1 (n + 2) rest)) c = get ?g1 c"
        using ih by simp
      then show ?thesis unfolding step using False by (simp add: g1)
    qed
    have c: "snd (suicide_loop g n (coord # rest)) =
        n + 2 * int (length (filter (\<lambda>c. get g c \<noteq> None) (coord # rest)))"
      unfolding step using ih cnt Some by simp
    show ?thesis using a b c by blast
  qed
qed


lemma is_valid_move_self_unit:
  assumes "is_valid_move g \<lparr>src = s, dst = s\<rparr> = Inr True"
  shows "\<exists>su. get g s = Some su \<and> player su = next_player g"
proof (cases "get g s")
  case None
  then show ?thesis using assms by (simp add: is_valid_move_def split: if_splits)
next
  case (Some su)
  then show ?thesis using assms by (simp add: is_valid_move_def split: if_splits)
qed

lemma str_int_0: "str_int 0 = ''0''"
  by (simp add: str_int_def)

text \<open>
  Claim C4. For every legal self-destruction at \<open>s\<close>, \<open>perform_move\<close> succeeds; the
  acting unit's health is driven to 0 and its cell is emptied; every other unit in the
  eight surrounding cells loses 2 health and is removed when that leaves no health;
  every cell outside the box is unchanged; and when no unit stands in the eight
  surrounding cells the description reports a total damage of 0.
\<close>

theorem suicide_effect:
  assumes "wf_game g" and "is_valid_move g \<lparr>src = s, dst = s\<rparr> = Inr True"
  shows "\<exists>g' msg. perform_move g \<lparr>src = s, dst = s\<rparr> = Inr (g', True, msg) \<and>
     (\<exists>su. get g s = Some su \<and> health (Unit_mod_health su (- 9)) = 0) \<and>
     get g' s = None \<and>
     (\<forall>c. c \<noteq> s \<and> \<bar>row c - row s\<bar> \<le> 1 \<and> \<bar>col c - col s\<bar> \<le> 1 \<longrightarrow>
        get g' c = (case get g c of None \<Rightarrow> None
                    | Some u \<Rightarrow> if health u - 2 \<le> 0 then None
                                else Some (u\<lparr>health := health u - 2\<rparr>))) \<and>
     (\<forall>c. \<not> (\<bar>row c - row s\<bar> \<le> 1 \<and> \<bar>col c - col s\<bar> \<le> 1) \<longrightarrow> get g' c = get g c) \<and>
     ((\<forall>c. c \<noteq> s \<and> \<bar>row c - row s\<bar> \<le> 1 \<and> \<bar>col c - col s\<bar> \<le> 1 \<longrightarrow> get g c = None) \<longrightarrow>
        (\<exists>x. to_string s = Inr x \<and>
             msg = ''self-destruct at '' @ x @ '' and deals 0 total damage''))"
proof -
  have w: "wf_board g" and h: "healths_ok g"
    using assms(1) by (simp_all add: wf_game_def)
  obtain su where su: "get g s = Some su" "player su = next_player g"
    using is_valid_move_self_unit [OF assms(2)] by blast
  have hs: "0 < health su \<and> health su \<le> 9" using healths_ok_get [OF w h su(1)] .
  let ?g1 = "mod_health g s (- 9)"
  let ?box = "iter_range s 1"
  let ?g2 = "fst (suicide_loop ?g1 0 ?box)"
  let ?total = "snd (suicide_loop ?g1 0 ?box)"
  have w1: "wf_board ?g1" using w by (rule wf_board_mod_health)
  have zero: "health (Unit_mod_health su (- 9)) = 0"
    using hs by (simp add: Unit_mod_health_def Let_def)
  have g1: "get ?g1 c = (if c = s then None else get g c)" for c
    using zero by (simp add: get_mod_health [OF w] su(1) is_alive_def)
  note loop = suicide_loop_result [OF w1 distinct_iter_range_1 [of s], of 0]
  have loop_in: "get ?g2 c = (case get ?g1 c of None \<Rightarrow> None
               | Some t \<Rightarrow> if is_alive (Unit_mod_health t (- 2))
                            then Some (Unit_mod_health t (- 2)) else None)"
    if "c \<in> set ?box" for c
    using loop that by simp
  have loop_out: "get ?g2 c = get ?g1 c" if "c \<notin> set ?box" for c
    using loop that by simp
  have loop_total: "?total = 2 * int (length (filter (\<lambda>c. get ?g1 c \<noteq> None) ?box))"
    using loop by simp
  have s_in: "s \<in> set ?box" by (simp add: in_iter_range_1)
  obtain x where x: "to_string s = Inr x"
    using to_string_valid [OF get_Some_valid [OF su(1)]] by blast
  have act: "determine_action g \<lparr>src = s, dst = s\<rparr> = Inr SUICIDE"
    by (simp add: determine_action_def)
  have pm: "perform_move g \<lparr>src = s, dst = s\<rparr> =
          Inr (?g2, True, ''self-destruct at '' @ x @ '' and deals '' @ str_int ?total @ '' total damage'')"
    by (simp add: perform_move_def assms(2) act perform_suicide_def Let_def x split_beta)
  have centre: "get ?g2 s = None"
    using loop_in [OF s_in] by (simp add: g1)
  have near: "get ?g2 c = (case get g c of None \<Rightarrow> None
                    | Some u \<Rightarrow> if health u - 2 \<le> 0 then None
                                else Some (u\<lparr>health := health u - 2\<rparr>))"
    if c: "c \<noteq> s" "\<bar>row c - row s\<bar> \<le> 1 \<and> \<bar>col c - col s\<bar> \<le> 1" for c
  proof (cases "get g c")
    case None
    have "c \<in> set ?box" using c(2) by (simp add: in_iter_range_1)
    then show ?thesis using loop_in [of c] c(1) None by (simp add: g1)
  next
    case (Some u)
    have hu: "0 < health u \<and> health u \<le> 9" using healths_ok_get [OF w h Some] .
    have "c \<in> set ?box" using c(2) by (simp add: in_iter_range_1)
    then have "get ?g2 c = (if is_alive (Unit_mod_health u (- 2)) then Some (Unit_mod_health u (- 2)) else None)"
      using loop_in [of c] c(1) Some by (simp add: g1)
    also have "\<dots> = (if health u - 2 \<le> 0 then None else Some (u\<lparr>health := health u - 2\<rparr>))"
      using hu by (intro damaged_unit) simp_all
    finally show ?thesis using Some by simp
  qed
  have far: "get ?g2 c = get g c" if c: "\<not> (\<bar>row c - row s\<bar> \<le> 1 \<and> \<bar>col c - col s\<bar> \<le> 1)" for c
  proof -
    have "c \<noteq> s" using c by auto
    moreover have "c \<notin> set ?box" using c by (simp add: in_iter_range_1)
    ultimately show ?thesis using loop_out [of c] by (simp add: g1)
  qed
  have none: "''self-destruct at '' @ x @ '' and deals '' @ str_int ?total @ '' total damage'' =
        ''self-destruct at '' @ x @ '' and deals 0 total damage''"
    if e: "\<forall>c. c \<noteq> s \<and> \<bar>row c - row s\<bar> \<le> 1 \<and> \<bar>col c - col s\<bar> \<le> 1 \<longrightarrow> get g c = None"
  proof -
    have "get ?g1 c = None" if "c \<in> set ?box" for c
      using e that by (simp add: g1 in_iter_range_1)
    then have "filter (\<lambda>c. get ?g1 c \<noteq> None) ?box = []"
      by (simp add: filter_empty_conv)
    then have "?total = 0" using loop_total by simp
    then show ?thesis by (simp add: str_int_0)
  qed
  let ?msg = "''self-destruct at '' @ x @ '' and deals '' @ str_int ?total @ '' total damage''"
  have unit: "\<exists>su. get g s = Some su \<and> health (Unit_mod_health su (- 9)) = 0"
    using su(1) zero by blast
  have near_all: "\<forall>c. c \<noteq> s \<and> \<bar>row c - row s\<bar> \<le> 1 \<and> \<bar>col c - col s\<bar> \<le> 1 \<longrightarrow>
        get ?g2 c = (case get g c of None \<Rightarrow> None
                    | Some u \<Rightarrow> if health u - 2 \<le> 0 then None
                                else Some (u\<lparr>health := health u - 2\<rparr>))"
    using near by blast
  have far_all: "\<forall>c. \<not> (\<bar>row c - row s\<bar> \<le> 1 \<and> \<bar>col c - col s\<bar> \<le> 1) \<longrightarrow> get ?g2 c = get g c"
    using far by blast
  have none_imp: "(\<forall>c. c \<noteq> s \<and> \<bar>row c - row s\<bar> \<le> 1 \<and> \<bar>col c - col s\<bar> \<le> 1 \<longrightarrow> get g c = None) \<longrightarrow>
        (\<exists>x. to_string s = Inr x \<and> ?msg = ''self-destruct at '' @ x @ '' and deals 0 total damage'')"
    using none x by blast
  show ?thesis
    by (intro exI [of _ ?g2] exI [of _ ?msg] conjI pm unit centre near_all far_all none_imp)
qed


theorem suicide_effect_witness:
  "(\<exists>g' msg. perform_move virus_tech_state \<lparr>src = \<lparr>row = 2, col = 2\<rparr>, dst = \<lparr>row = 2, col = 2\<rparr>\<rparr> = Inr (g', True, msg) \<and>
      get g' \<lparr>row = 2, col = 2\<rparr> = None \<and>
      get g' \<lparr>row = 2, col = 3\<rparr> = Some \<lparr>player = Defender, type = Tech, health = 7\<rparr> \<and>
      get g' \<lparr>row = 0, col = 0\<rparr> = Some \<lparr>player = Defender, type = AI, health = 9\<rparr>) \<and>
   (\<exists>g'. perform_move virus_tech_state \<lparr>src = \<lparr>row = 4, col = 4\<rparr>, dst = \<lparr>row = 4, col = 4\<rparr>\<rparr> =
      Inr (g', True, ''self-destruct at E4 and deals 0 total damage''))"
proof -
  let ?g = virus_tech_state
  have w: "wf_game ?g" by code_simp
  have v1: "is_valid_move ?g \<lparr>src = \<lparr>row = 2, col = 2\<rparr>, dst = \<lparr>row = 2, col = 2\<rparr>\<rparr> = Inr True"
    by code_simp
  have v2: "is_valid_move ?g \<lparr>src = \<lparr>row = 4, col = 4\<rparr>, dst = \<lparr>row = 4, col = 4\<rparr>\<rparr> = Inr True"
    by code_simp
  have t: "get ?g \<lparr>row = 2, col = 3\<rparr> = Some \<lparr>player = Defender, type = Tech, health = 9\<rparr>"
    by code_simp
  have a: "get ?g \<lparr>row = 0, col = 0\<rparr> = Some \<lparr>player = Defender, type = AI, health = 9\<rparr>"
    by code_simp
  have first: "\<exists>g' msg. perform_move ?g \<lparr>src = \<lparr>row = 2, col = 2\<rparr>, dst = \<lparr>row = 2, col = 2\<rparr>\<rparr> = Inr (g', True, msg) \<and>
      get g' \<lparr>row = 2, col = 2\<rparr> = None \<and>
      get g' \<lparr>row = 2, col = 3\<rparr> = Some \<lparr>player = Defender, type = Tech, health = 7\<rparr> \<and>
      get g' \<lparr>row = 0, col = 0\<rparr> = Some \<lparr>player = Defender, type = AI, health = 9\<rparr>"
  proof -
    from suicide_effect [OF w v1] obtain g' msg where
      pm: "perform_move ?g \<lparr>src = \<lparr>row = 2, col = 2\<rparr>, dst = \<lparr>row = 2, col = 2\<rparr>\<rparr> = Inr (g', True, msg)"
      and c: "get g' \<lparr>row = 2, col = 2\<rparr> = None"
      and near: "\<forall>c. c \<noteq> \<lparr>row = 2, col = 2\<rparr> \<and> \<bar>row c - row \<lparr>row = 2, col = 2\<rparr>\<bar> \<le> 1 \<and>
                  \<bar>col c - col \<lparr>row = 2, col = 2\<rparr>\<bar> \<le> 1 \<longrightarrow>
        get g' c = (case get ?g c of None \<Rightarrow> None
                    | Some u \<Rightarrow> if health u - 2 \<le> 0 then None
                                else Some (u\<lparr>health := health u - 2\<rparr>))"
      and far: "\<forall>c. \<not> (\<bar>row c - row \<lparr>row = 2, col = 2\<rparr>\<bar> \<le> 1 \<and> \<bar>col c - col \<lparr>row = 2, col = 2\<rparr>\<bar> \<le> 1)
                  \<longrightarrow> get g' c = get ?g c"
      by blast
    have "get g' \<lparr>row = 2, col = 3\<rparr> = Some \<lparr>player = Defender, type = Tech, health = 7\<rparr>"
      using near [rule_format, of "\<lparr>row = 2, col = 3\<rparr>"] t by simp
    moreover have "get g' \<lparr>row = 0, col = 0\<rparr> = Some \<lparr>player = Defender, type = AI, health = 9\<rparr>"
      using far [rule_format, of "\<lparr>row = 0, col = 0\<rparr>"] a by simp
    ultimately show ?thesis using pm c by blast
  qed
  have second: "\<exists>g'. perform_move ?g \<lparr>src = \<lparr>row = 4, col = 4\<rparr>, dst = \<lparr>row = 4, col = 4\<rparr>\<rparr> =
      Inr (g', True, ''self-destruct at E4 and deals 0 total damage'')"
  proof -
    have e: "\<forall>c \<in> set (iter_range \<lparr>row = 4, col = 4\<rparr> 1). c \<noteq> \<lparr>row = 4, col = 4\<rparr> \<longrightarrow> get ?g c = None"
      by code_simp
    have empty: "\<forall>c. c \<noteq> \<lparr>row = 4, col = 4\<rparr> \<and> \<bar>row c - row \<lparr>row = 4, col = 4\<rparr>\<bar> \<le> 1 \<and>
                  \<bar>col c - col \<lparr>row = 4, col = 4\<rparr>\<bar> \<le> 1 \<longrightarrow> get ?g c = None"
      using e unfolding in_iter_range_1 [symmetric] by blast
    have x: "to_string \<lparr>row = 4, col = 4\<rparr> = Inr ''E4''" by code_simp
    from suicide_effect [OF w v2] empty x show ?thesis by auto
  qed
  show ?thesis using first second by (rule conjI)
qed

section \<open>Adversarial search\<close>

lemma max_loop_best_move:
  "max_loop clock child g alpha beta tick max_eval best_move moves = Inr ((e, Some m), t)
     \<Longrightarrow> best_move = Some m \<or> m \<in> set moves"
proof (induction moves arbitrary: alpha tick max_eval best_move)
  case Nil
  then show ?case by simp
next
  case (Cons move rest)
  show ?case
  proof (cases "max_time (options g) \<noteq> None \<and> clock tick")
    case True
    then show ?thesis using Cons.prems by simp
  next
    case False
    from Cons.prems False obtain action2 game_clone r eval r' tick2 where
      c: "child (next_turn game_clone) False alpha beta
            (if max_time (options g) \<noteq> None then Suc tick else tick)
            (Some move) (Some action2) (Some g) = Inr ((eval, r'), tick2)"
      and d: "determine_action g move = Inr action2"
      and p: "perform_move g move = Inr (game_clone, r)"
      by (auto simp: Let_def split: sum.splits)
    let ?me = "if eval > max_eval then eval else max_eval"
    let ?bm = "if eval > max_eval then Some move else best_move"
    have "(alpha_beta (options g) \<and> beta \<le> max alpha eval \<and> ?bm = Some m) \<or>
          (\<exists>a. max_loop clock child g a beta tick2 ?me ?bm rest = Inr ((e, Some m), t))"
      using Cons.prems False c d p by (auto simp: Let_def split: if_splits)
    then have "?bm = Some m \<or> m \<in> set rest"
      using Cons.IH by blast
    then show ?thesis by (auto split: if_splits)
  qed
qed

lemma min_loop_best_move:
  "min_loop clock child g alpha beta tick min_eval best_move moves = Inr ((e, Some m), t)
     \<Longrightarrow> best_move = Some m \<or> m \<in> set moves"
proof (induction moves arbitrary: beta tick min_eval best_move)
  case Nil
  then show ?case by simp
next
  case (Cons move rest)
  show ?case
  proof (cases "max_time (options g) \<noteq> None \<and> clock tick")
    case True
    then show ?thesis using Cons.prems by simp
  next
    case False
    from Cons.prems False obtain action2 game_clone r eval r' tick2 where
      c: "child (next_turn game_clone) True alpha beta
            (if max_time (options g) \<noteq> None then Suc tick else tick)
            (Some move) (Some action2) (Some g) = Inr ((eval, r'), tick2)"
      and d: "determine_action g move = Inr action2"
      and p: "perform_move g move = Inr (game_clone, r)"
      by (auto simp: Let_def split: sum.splits)
    let ?me = "if eval < min_eval then eval else min_eval"
    let ?bm = "if eval < min_eval then Some move else best_move"
    have "(alpha_beta (options g) \<and> min beta eval \<le> alpha \<and> ?bm = Some m) \<or>
          (\<exists>b. min_loop clock child g alpha b tick2 ?me ?bm rest = Inr ((e, Some m), t))"
      using Cons.prems False c d p by (auto simp: Let_def split: if_splits)
    then have "?bm = Some m \<or> m \<in> set rest"
      using Cons.IH by blast
    then show ?thesis by (auto split: if_splits)
  qed
qed

lemma minimax_move_candidate:
  assumes "minimax clock depth g maximizing_player alpha beta tick move action prev_state =
             Inr ((score, Some m, d), tick')"
  shows "\<exists>ms. move_candidates g = Inr ms \<and> m \<in> set ms"
proof (cases depth)
  case 0
  then show ?thesis using assms by (simp add: minimax_leaf_def split: sum.splits)
next
  case (Suc n)
  have nf: "\<not> is_finished g"
    using assms Suc by (auto simp: minimax_leaf_def split: sum.splits)
  obtain ms where ms: "move_candidates g = Inr ms"
    using move_candidates_valid by blast
  show ?thesis
  proof (cases maximizing_player)
    case True
    then obtain e t where "max_loop clock (minimax clock n) g alpha beta tick MIN_HEURISTIC_SCORE None ms =
        Inr ((e, Some m), t)"
      using assms Suc nf ms by (auto split: sum.splits)
    then show ?thesis using max_loop_best_move ms by fastforce
  next
    case False
    then obtain e t where "min_loop clock (minimax clock n) g alpha beta tick MAX_HEURISTIC_SCORE None ms =
        Inr ((e, Some m), t)"
      using assms Suc nf ms by (auto split: sum.splits)
    then show ?thesis using min_loop_best_move ms by fastforce
  qed
qed


text \<open>
  Claim C7. Whenever \<open>minimax\<close>, at any depth, with any window, any clock and either
  role, returns a move, and whenever \<open>suggest_move\<close> does, that move is accepted by
  \<open>is_valid_move\<close> in the state the search was started from.
\<close>

theorem search_move_is_legal:
  "(minimax clock depth g maximizing_player alpha beta tick move action prev_state =
      Inr ((score, Some m, d), tick') \<longrightarrow> is_valid_move g m = Inr True) \<and>
   (suggest_move clock g = Inr (Some m) \<longrightarrow> is_valid_move g m = Inr True)"
proof (intro conjI impI)
  assume "minimax clock depth g maximizing_player alpha beta tick move action prev_state =
      Inr ((score, Some m, d), tick')"
  from minimax_move_candidate [OF this] obtain ms where
    "move_candidates g = Inr ms" "m \<in> set ms" by blast
  then show "is_valid_move g m = Inr True"
    using move_candidates_valid [of g] by auto
next
  assume s: "suggest_move clock g = Inr (Some m)"
  then obtain mp sc dd t where
    "minimax clock 2 g mp MIN_HEURISTIC_SCORE MAX_HEURISTIC_SCORE 0 None None None =
       Inr ((sc, Some m, dd), t)"
    by (auto simp: suggest_move_def split: if_splits sum.splits)
  from minimax_move_candidate [OF this] obtain ms where
    "move_candidates g = Inr ms" "m \<in> set ms" by blast
  then show "is_valid_move g m = Inr True"
    using move_candidates_valid [of g] by auto
qed

theorem search_move_is_legal_witness:
  "suggest_move (\<lambda>_. False) (with_alpha_beta True corner_state) =
     Inr (Some \<lparr>src = \<lparr>row = 3, col = 4\<rparr>, dst = \<lparr>row = 3, col = 3\<rparr>\<rparr>) \<and>
   is_valid_move (with_alpha_beta True corner_state)
     \<lparr>src = \<lparr>row = 3, col = 4\<rparr>, dst = \<lparr>row = 3, col = 3\<rparr>\<rparr> = Inr True"
proof -
  have s: "suggest_move (\<lambda>_. False) (with_alpha_beta True corner_state) =
     Inr (Some \<lparr>src = \<lparr>row = 3, col = 4\<rparr>, dst = \<lparr>row = 3, col = 3\<rparr>\<rparr>)"
    by code_simp
  show ?thesis
    using s search_move_is_legal [of "\<lambda>_. False" _ "with_alpha_beta True corner_state" _ _ _ _ _ _ _ _
        "\<lparr>src = \<lparr>row = 3, col = 4\<rparr>, dst = \<lparr>row = 3, col = 3\<rparr>\<rparr>"]
    by simp
qed

text \<open>
  Claim C6, at a state where the code departs from it. In \<open>corner_state\<close>, with
  \<open>max_time = None\<close> and depth 2, the search with pruning enabled returns the score
  \<open>-93\<close>, while the search with pruning disabled raises \<open>NameError\<close>: it evaluates
  the leaf reached by the Defender Tech moving from E4 to the emptied E3, and
  \<open>calculate_heuristic3\<close> calls \<open>math.sqrt\<close> there although \<open>math\<close> is never
  imported. The pruned search cuts that leaf off.
\<close>

theorem pruning_changes_outcome:
  "max_time (options corner_state) = None \<and>
   minimax (\<lambda>_. False) 2 (with_alpha_beta True corner_state) True
     MIN_HEURISTIC_SCORE MAX_HEURISTIC_SCORE 0 None None None =
     Inr ((- 93, Some \<lparr>src = \<lparr>row = 3, col = 4\<rparr>, dst = \<lparr>row = 3, col = 3\<rparr>\<rparr>, 2), 0) \<and>
   minimax (\<lambda>_. False) 2 (with_alpha_beta False corner_state) True
     MIN_HEURISTIC_SCORE MAX_HEURISTIC_SCORE 0 None None None = Inl NameError"
  by code_simp

section \<open>The pruning option does not affect the rules\<close>

lemma with_alpha_beta_fields [simp]:
  "board (with_alpha_beta b g) = board g"
  "next_player (with_alpha_beta b g) = next_player g"
  "turns_played (with_alpha_beta b g) = turns_played g"
  "attacker_has_ai (with_alpha_beta b g) = attacker_has_ai g"
  "defender_has_ai (with_alpha_beta b g) = defender_has_ai g"
  "dim (options (with_alpha_beta b g)) = dim (options g)"
  "max_time (options (with_alpha_beta b g)) = max_time (options g)"
  "max_turns (options (with_alpha_beta b g)) = max_turns (options g)"
  "alpha_beta (options (with_alpha_beta b g)) = b"
  by (simp_all add: with_alpha_beta_def)

lemma is_valid_coord_wab [simp]: "is_valid_coord (with_alpha_beta b g) c = is_valid_coord g c"
  by (simp add: is_valid_coord_def)

lemma get_wab [simp]: "get (with_alpha_beta b g) c = get g c"
  by (simp add: get_def)

lemma set_cell_wab: "set_cell (with_alpha_beta b g) c u = with_alpha_beta b (set_cell g c u)"
  by (simp add: set_cell_def)

lemma flag_update_wab:
  "(with_alpha_beta b g)\<lparr>attacker_has_ai := x\<rparr> = with_alpha_beta b (g\<lparr>attacker_has_ai := x\<rparr>)"
  "(with_alpha_beta b g)\<lparr>defender_has_ai := x\<rparr> = with_alpha_beta b (g\<lparr>defender_has_ai := x\<rparr>)"
  by (simp_all add: with_alpha_beta_def)

lemma remove_dead_wab: "remove_dead (with_alpha_beta b g) c = with_alpha_beta b (remove_dead g c)"
  by (simp add: remove_dead_def Let_def set_cell_wab flag_update_wab split: option.splits)

lemma mod_health_wab: "mod_health (with_alpha_beta b g) c d = with_alpha_beta b (mod_health g c d)"
  by (simp add: mod_health_def set_cell_wab remove_dead_wab split: option.splits)

lemma suicide_loop_wab:
  "suicide_loop (with_alpha_beta b g) n cs =
     (with_alpha_beta b (fst (suicide_loop g n cs)), snd (suicide_loop g n cs))"
  by (induction cs arbitrary: g n) (simp_all add: mod_health_wab)

lemma next_turn_wab: "next_turn (with_alpha_beta b g) = with_alpha_beta b (next_turn g)"
  by (simp add: next_turn_def with_alpha_beta_def)

lemma is_finished_wab [simp]: "is_finished (with_alpha_beta b g) = is_finished g"
  by (simp add: is_finished_def has_winner_def)

lemma determine_action_wab [simp]:
  "determine_action (with_alpha_beta b g) coords = determine_action g coords"
  by (simp add: determine_action_def)

lemma adjacent_enemy_loop_wab [simp]:
  "adjacent_enemy_loop (with_alpha_beta b g) su cs = adjacent_enemy_loop g su cs"
  by (induction cs) (simp_all cong: option.case_cong if_cong)

lemma unit_movement_restriction_wab [simp]:
  "unit_movement_restriction (with_alpha_beta b g) coords = unit_movement_restriction g coords"
  by (simp add: unit_movement_restriction_def Let_def cong: option.case_cong if_cong)

lemma is_valid_move_loop_wab [simp]:
  "is_valid_move_loop (with_alpha_beta b g) coords su cs = is_valid_move_loop g coords su cs"
  by (induction cs) (simp_all cong: option.case_cong if_cong)

lemma is_valid_move_wab [simp]:
  "is_valid_move (with_alpha_beta b g) coords = is_valid_move g coords"
  by (simp add: is_valid_move_def cong: option.case_cong if_cong)

lemma player_units_wab [simp]: "player_units (with_alpha_beta b g) p = player_units g p"
  by (simp add: player_units_def cong: option.case_cong if_cong)

lemma candidates_from_wab [simp]:
  "candidates_from (with_alpha_beta b g) s ds = candidates_from g s ds"
  by (induction ds) (simp_all cong: sum.case_cong option.case_cong if_cong)

lemma move_candidates_loop_wab [simp]:
  "move_candidates_loop (with_alpha_beta b g) us = move_candidates_loop g us"
  by (induction us) (auto cong: sum.case_cong option.case_cong if_cong)

lemma move_candidates_wab [simp]: "move_candidates (with_alpha_beta b g) = move_candidates g"
  by (simp add: move_candidates_def)

lemma perform_move_wab:
  "perform_move (with_alpha_beta b g) coords =
     (case perform_move g coords of
        Inl e \<Rightarrow> Inl e
      | Inr (g', r) \<Rightarrow> Inr (with_alpha_beta b g', r))"
proof -
  have at: "perform_attack (with_alpha_beta b g) coords su du =
     (case perform_attack g coords su du of Inl e \<Rightarrow> Inl e | Inr (g', r) \<Rightarrow> Inr (with_alpha_beta b g', r))"
    for su du
    by (simp add: perform_attack_def Let_def mod_health_wab split: option.splits sum.splits)
  have re: "perform_repair (with_alpha_beta b g) coords su du =
     (case perform_repair g coords su du of Inl e \<Rightarrow> Inl e | Inr (g', r) \<Rightarrow> Inr (with_alpha_beta b g', r))"
    for su du
    by (simp add: perform_repair_def Let_def mod_health_wab split: option.splits sum.splits)
  have mo: "perform_movement (with_alpha_beta b g) coords =
     (case perform_movement g coords of Inl e \<Rightarrow> Inl e | Inr (g', r) \<Rightarrow> Inr (with_alpha_beta b g', r))"
    by (simp add: perform_movement_def Let_def set_cell_wab split: sum.splits)
  have su: "perform_suicide (with_alpha_beta b g) coords =
     (case perform_suicide g coords of Inl e \<Rightarrow> Inl e | Inr (g', r) \<Rightarrow> Inr (with_alpha_beta b g', r))"
    by (simp add: perform_suicide_def Let_def mod_health_wab suicide_loop_wab split_beta split: sum.splits)
  show ?thesis
    by (simp add: perform_move_def Let_def at re mo su split: sum.splits)
qed

lemma heuristic_move_loop_wab [simp]:
  "heuristic_move_loop (with_alpha_beta b g) su unit cs = heuristic_move_loop g su unit cs"
  by (induction cs arbitrary: unit) (auto split: option.splits)

lemma calculate_heuristic3_wab [simp]:
  "calculate_heuristic3 (with_alpha_beta b g) move action (map_option (with_alpha_beta b') prev_state) =
   calculate_heuristic3 g move action prev_state"
  by (cases prev_state; cases move)
     (simp_all add: calculate_heuristic3_def heuristic_move_def cong: sum.case_cong option.case_cong if_cong)

section \<open>Soundness of the pruning\<close>

lemma max_loop_step:
  assumes "max_time (options g) = None"
  shows "max_loop clock child g alpha beta tick max_eval best_move (move # rest) =
    (case determine_action g move of
       Inl e \<Rightarrow> Inl e
     | Inr action2 \<Rightarrow>
    (case perform_move g move of
       Inl e \<Rightarrow> Inl e
     | Inr (game_clone, _) \<Rightarrow>
    (case child (next_turn game_clone) False alpha beta tick (Some move) (Some action2) (Some g) of
       Inl e \<Rightarrow> Inl e
     | Inr ((eval, _), tick2) \<Rightarrow>
         if alpha_beta (options g) \<and> beta \<le> max alpha eval
         then Inr ((max max_eval eval, if eval > max_eval then Some move else best_move), tick2)
         else max_loop clock child g (if alpha_beta (options g) then max alpha eval else alpha) beta tick2
                (max max_eval eval) (if eval > max_eval then Some move else best_move) rest)))"
  using assms by (simp add: Let_def max_def split: sum.splits prod.splits)

lemma min_loop_step:
  assumes "max_time (options g) = None"
  shows "min_loop clock child g alpha beta tick min_eval best_move (move # rest) =
    (case determine_action g move of
       Inl e \<Rightarrow> Inl e
     | Inr action2 \<Rightarrow>
    (case perform_move g move of
       Inl e \<Rightarrow> Inl e
     | Inr (game_clone, _) \<Rightarrow>
    (case child (next_turn game_clone) True alpha beta tick (Some move) (Some action2) (Some g) of
       Inl e \<Rightarrow> Inl e
     | Inr ((eval, _), tick2) \<Rightarrow>
         if alpha_beta (options g) \<and> min beta eval \<le> alpha
         then Inr ((min min_eval eval, if eval < min_eval then Some move else best_move), tick2)
         else min_loop clock child g alpha (if alpha_beta (options g) then min beta eval else beta) tick2
                (min min_eval eval) (if eval < min_eval then Some move else best_move) rest)))"
  using assms by (simp add: Let_def min_def split: sum.splits prod.splits)

lemma max_loop_Cons_Inr:
  assumes "max_time (options g) = None"
    and "max_loop clock child g alpha beta tick max_eval best_move (move # rest) = Inr res"
  obtains action2 game_clone rr eval x tick2 where
    "determine_action g move = Inr action2"
    "perform_move g move = Inr (game_clone, rr)"
    "child (next_turn game_clone) False alpha beta tick (Some move) (Some action2) (Some g) =
       Inr ((eval, x), tick2)"
    "(if alpha_beta (options g) \<and> beta \<le> max alpha eval
      then Inr ((max max_eval eval, if eval > max_eval then Some move else best_move), tick2)
      else max_loop clock child g (if alpha_beta (options g) then max alpha eval else alpha) beta tick2
             (max max_eval eval) (if eval > max_eval then Some move else best_move) rest) = Inr res"
proof (cases "determine_action g move")
  case (Inl e)
  then show ?thesis using assms(2) unfolding max_loop_step [OF assms(1)] by simp
next
  case d: (Inr action2)
  show ?thesis
  proof (cases "perform_move g move")
    case (Inl e)
    then show ?thesis using assms(2) d unfolding max_loop_step [OF assms(1)] by simp
  next
    case (Inr pr)
    obtain game_clone rr where pr: "pr = (game_clone, rr)" by (cases pr)
    note p = Inr [unfolded pr]
    show ?thesis
    proof (cases "child (next_turn game_clone) False alpha beta tick (Some move) (Some action2) (Some g)")
      case (Inl e)
      then show ?thesis using assms(2) d p unfolding max_loop_step [OF assms(1)] by simp
    next
      case (Inr cr)
      obtain eval x tick2 where cr: "cr = ((eval, x), tick2)" by (cases cr) auto
      note c = Inr [unfolded cr]
      show ?thesis
        using assms(2)
        by (intro that [OF d p c]) (simp only: max_loop_step [OF assms(1)] d p c sum.case prod.case)
    qed
  qed
qed

lemma min_loop_Cons_Inr:
  assumes "max_time (options g) = None"
    and "min_loop clock child g alpha beta tick min_eval best_move (move # rest) = Inr res"
  obtains action2 game_clone rr eval x tick2 where
    "determine_action g move = Inr action2"
    "perform_move g move = Inr (game_clone, rr)"
    "child (next_turn game_clone) True alpha beta tick (Some move) (Some action2) (Some g) =
       Inr ((eval, x), tick2)"
    "(if alpha_beta (options g) \<and> min beta eval \<le> alpha
      then Inr ((min min_eval eval, if eval < min_eval then Some move else best_move), tick2)
      else min_loop clock child g alpha (if alpha_beta (options g) then min beta eval else beta) tick2
             (min min_eval eval) (if eval < min_eval then Some move else best_move) rest) = Inr res"
proof (cases "determine_action g move")
  case (Inl e)
  then show ?thesis using assms(2) unfolding min_loop_step [OF assms(1)] by simp
next
  case d: (Inr action2)
  show ?thesis
  proof (cases "perform_move g move")
    case (Inl e)
    then show ?thesis using assms(2) d unfolding min_loop_step [OF assms(1)] by simp
  next
    case (Inr pr)
    obtain game_clone rr where pr: "pr = (game_clone, rr)" by (cases pr)
    note p = Inr [unfolded pr]
    show ?thesis
    proof (cases "child (next_turn game_clone) True alpha beta tick (Some move) (Some action2) (Some g)")
      case (Inl e)
      then show ?thesis using assms(2) d p unfolding min_loop_step [OF assms(1)] by simp
    next
      case (Inr cr)
      obtain eval x tick2 where cr: "cr = ((eval, x), tick2)" by (cases cr) auto
      note c = Inr [unfolded cr]
      show ?thesis
        using assms(2)
        by (intro that [OF d p c]) (simp only: min_loop_step [OF assms(1)] d p c sum.case prod.case)
    qed
  qed
qed

lemma max_loop_ge:
  assumes "max_time (options g) = None"
  shows "max_loop clock child g alpha beta tick max_eval best_move moves = Inr ((r, m), t)
     \<Longrightarrow> max_eval \<le> r"
proof (induction moves arbitrary: alpha tick max_eval best_move)
  case Nil
  then show ?case by simp
next
  case (Cons move rest)
  from max_loop_Cons_Inr [OF assms Cons.prems] obtain eval tick2 where
    s: "(if alpha_beta (options g) \<and> beta \<le> max alpha eval
      then Inr ((max max_eval eval, if eval > max_eval then Some move else best_move), tick2)
      else max_loop clock child g (if alpha_beta (options g) then max alpha eval else alpha) beta tick2
             (max max_eval eval) (if eval > max_eval then Some move else best_move) rest) = Inr ((r, m), t)"
    by metis
  show ?case
  proof (cases "alpha_beta (options g) \<and> beta \<le> max alpha eval")
    case True
    then show ?thesis using s by auto
  next
    case False
    have "max max_eval eval \<le> r"
      using s unfolding if_not_P [OF False] by (rule Cons.IH)
    then show ?thesis by simp
  qed
qed

lemma min_loop_le:
  assumes "max_time (options g) = None"
  shows "min_loop clock child g alpha beta tick min_eval best_move moves = Inr ((r, m), t)
     \<Longrightarrow> r \<le> min_eval"
proof (induction moves arbitrary: beta tick min_eval best_move)
  case Nil
  then show ?case by simp
next
  case (Cons move rest)
  from min_loop_Cons_Inr [OF assms Cons.prems] obtain eval tick2 where
    s: "(if alpha_beta (options g) \<and> min beta eval \<le> alpha
      then Inr ((min min_eval eval, if eval < min_eval then Some move else best_move), tick2)
      else min_loop clock child g alpha (if alpha_beta (options g) then min beta eval else beta) tick2
             (min min_eval eval) (if eval < min_eval then Some move else best_move) rest) = Inr ((r, m), t)"
    by metis
  show ?case
  proof (cases "alpha_beta (options g) \<and> min beta eval \<le> alpha")
    case True
    then show ?thesis using s by auto
  next
    case False
    have "r \<le> min min_eval eval"
      using s unfolding if_not_P [OF False] by (rule Cons.IH)
    then show ?thesis by simp
  qed
qed

lemma options_suicide_loop [simp]: "options (fst (suicide_loop g n cs)) = options g"
  by (induction cs arbitrary: g n) simp_all

lemma options_perform_move:
  assumes "perform_move g coords = Inr (g', r)"
  shows "options g' = options g"
proof -
  have at: "perform_attack g coords su du = Inr (g', r) \<Longrightarrow> options g' = options g" for su du
    by (auto simp: perform_attack_def Let_def split: option.splits sum.splits)
  have re: "perform_repair g coords su du = Inr (g', r) \<Longrightarrow> options g' = options g" for su du
    by (auto simp: perform_repair_def Let_def split: option.splits sum.splits)
  have mo: "perform_movement g coords = Inr (g', r) \<Longrightarrow> options g' = options g"
    by (auto simp: perform_movement_def Let_def split: sum.splits)
  have su: "perform_suicide g coords = Inr (g', r) \<Longrightarrow> options g' = options g"
    by (auto simp: perform_suicide_def Let_def split_beta split: sum.splits)
  show ?thesis
    using assms at re mo su
    by (auto simp: perform_move_def Let_def split: sum.splits if_splits)
qed

lemma options_next_turn [simp]: "options (next_turn g) = options g"
  by (simp add: next_turn_def)

lemma perform_move_wab_Inr:
  assumes "perform_move (with_alpha_beta b g) coords = Inr (g1, r)"
  obtains g' where "perform_move g coords = Inr (g', r)" "g1 = with_alpha_beta b g'"
  using assms unfolding perform_move_wab by (auto split: sum.splits)

lemma max_loop_refines:
  fixes cU cP :: child_search
  assumes mt: "max_time (options g) = None"
    and child: "\<And>g' a b aU bU tU tP mv act v x tU'.
        max_time (options g') = None \<Longrightarrow> a < b \<Longrightarrow> MIN_HEURISTIC_SCORE \<le> a \<Longrightarrow> b \<le> MAX_HEURISTIC_SCORE \<Longrightarrow>
        cU (with_alpha_beta False g') False aU bU tU mv act (Some (with_alpha_beta False g)) = Inr ((v, x), tU') \<Longrightarrow>
        \<exists>r y tP'. cP (with_alpha_beta True g') False a b tP mv act (Some (with_alpha_beta True g)) = Inr ((r, y), tP') \<and>
                   fail_soft a b v r"
  shows "meU \<le> meP \<Longrightarrow> meP \<le> a \<Longrightarrow> a < b \<Longrightarrow> MIN_HEURISTIC_SCORE \<le> a \<Longrightarrow> b \<le> MAX_HEURISTIC_SCORE \<Longrightarrow>
     max_loop clock cU (with_alpha_beta False g) aU bU tU meU bmU moves = Inr ((v, x), tU') \<Longrightarrow>
     \<exists>r y tP'. max_loop clock cP (with_alpha_beta True g) a b tP meP bmP moves = Inr ((r, y), tP') \<and>
                fail_soft a b v r"
proof (induction moves arbitrary: meU meP a tU tP bmU bmP)
  case Nil
  then show ?case by (simp add: fail_soft_def)
next
  case (Cons move rest)
  have mtU: "max_time (options (with_alpha_beta False g)) = None"
    and mtP: "max_time (options (with_alpha_beta True g)) = None"
    using mt by simp_all
  from max_loop_Cons_Inr [OF mtU Cons.prems(6)] obtain action2 gcU rr v1 x1 t1 where
    d: "determine_action (with_alpha_beta False g) move = Inr action2"
    and p: "perform_move (with_alpha_beta False g) move = Inr (gcU, rr)"
    and c: "cU (next_turn gcU) False aU bU tU (Some move) (Some action2) (Some (with_alpha_beta False g)) =
              Inr ((v1, x1), t1)"
    and s: "(if alpha_beta (options (with_alpha_beta False g)) \<and> bU \<le> max aU v1
      then Inr ((max meU v1, if v1 > meU then Some move else bmU), t1)
      else max_loop clock cU (with_alpha_beta False g)
             (if alpha_beta (options (with_alpha_beta False g)) then max aU v1 else aU) bU t1
             (max meU v1) (if v1 > meU then Some move else bmU) rest) = Inr ((v, x), tU')"
    by blast
  have restU: "max_loop clock cU (with_alpha_beta False g) aU bU t1 (max meU v1)
                 (if v1 > meU then Some move else bmU) rest = Inr ((v, x), tU')"
    using s by simp
  from perform_move_wab_Inr [OF p] obtain gc where
    gc: "perform_move g move = Inr (gc, rr)" and gcU: "gcU = with_alpha_beta False gc" by blast
  have mtc: "max_time (options (next_turn gc)) = None"
    using options_perform_move [OF gc] mt by simp
  have cU': "cU (with_alpha_beta False (next_turn gc)) False aU bU tU (Some move) (Some action2)
               (Some (with_alpha_beta False g)) = Inr ((v1, x1), t1)"
    using c by (simp add: gcU next_turn_wab)
  from child [OF mtc Cons.prems(3,4,5) cU', of tP] obtain r1 y1 t1P where
    cP': "cP (with_alpha_beta True (next_turn gc)) False a b tP (Some move) (Some action2)
            (Some (with_alpha_beta True g)) = Inr ((r1, y1), t1P)"
    and fs1: "fail_soft a b v1 r1" by blast
  have dP: "determine_action (with_alpha_beta True g) move = Inr action2"
    using d by simp
  have pP: "perform_move (with_alpha_beta True g) move = Inr (with_alpha_beta True gc, rr)"
    by (simp add: perform_move_wab gc)
  let ?bm = "if r1 > meP then Some move else bmP"
  have stepP: "max_loop clock cP (with_alpha_beta True g) a b tP meP bmP (move # rest) =
      (if b \<le> max a r1 then Inr ((max meP r1, ?bm), t1P)
       else max_loop clock cP (with_alpha_beta True g) (max a r1) b t1P (max meP r1) ?bm rest)"
    by (simp only: max_loop_step [OF mtP] dP pP next_turn_wab cP' sum.case prod.case
          with_alpha_beta_fields simp_thms if_True)
  have vge: "max meU v1 \<le> v"
    using max_loop_ge [OF mtU restU] .
  show ?case
  proof (cases "b \<le> max a r1")
    case True
    then have "b \<le> r1" using Cons.prems(3) by simp
    then have "fail_soft a b v (max meP r1)"
      using fs1 vge Cons.prems(1,2,3) by (auto simp: fail_soft_def)
    then show ?thesis unfolding stepP using True by simp
  next
    case False
    then have lt: "r1 < b" by simp
    have v1r1: "v1 \<le> r1" using fs1 lt by (auto simp: fail_soft_def)
    have pre1: "max meU v1 \<le> max meP r1" using Cons.prems(1) v1r1 by linarith
    have pre2: "max meP r1 \<le> max a r1" using Cons.prems(2) by simp
    have pre3: "max a r1 < b" using Cons.prems(3) lt by simp
    have pre4: "MIN_HEURISTIC_SCORE \<le> max a r1" using Cons.prems(4) by simp
    from Cons.IH [OF pre1 pre2 pre3 pre4 Cons.prems(5) restU, of t1P ?bm]
    obtain r y tP' where
      loopP: "max_loop clock cP (with_alpha_beta True g) (max a r1) b t1P (max meP r1) ?bm rest =
                Inr ((r, y), tP')"
      and fs: "fail_soft (max a r1) b v r" by blast
    have rge: "max meP r1 \<le> r" using max_loop_ge [OF mtP loopP] .
    have fsA: "r \<le> max a r1 \<Longrightarrow> v \<le> r" and fsB: "b \<le> r \<Longrightarrow> r \<le> v"
      and fsC: "max a r1 < r \<Longrightarrow> r < b \<Longrightarrow> r = v"
      using fs unfolding fail_soft_def by blast+
    have fs1C: "a < r1 \<Longrightarrow> r1 < b \<Longrightarrow> r1 = v1"
      using fs1 unfolding fail_soft_def by blast
    have "fail_soft a b v r"
      unfolding fail_soft_def
    proof (intro conjI impI)
      assume "r \<le> a"
      then have "r \<le> max a r1" by linarith
      then show "v \<le> r" by (rule fsA)
    next
      assume "b \<le> r"
      then show "r \<le> v" by (rule fsB)
    next
      assume w: "a < r \<and> r < b"
      show "r = v"
      proof (cases "max a r1 < r")
        case True
        then show ?thesis using fsC w by blast
      next
        case False
        then have le: "r \<le> max a r1" by linarith
        then have vr: "v \<le> r" by (rule fsA)
        have "r = r1" using le w rge by linarith
        then have "r = v1" using fs1C w by blast
        then show ?thesis using vr vge by linarith
      qed
    qed
    then show ?thesis unfolding stepP using False loopP by simp
  qed
qed


lemma min_loop_refines:
  fixes cU cP :: child_search
  assumes mt: "max_time (options g) = None"
    and child: "\<And>g' a b aU bU tU tP mv act v x tU'.
        max_time (options g') = None \<Longrightarrow> a < b \<Longrightarrow> MIN_HEURISTIC_SCORE \<le> a \<Longrightarrow> b \<le> MAX_HEURISTIC_SCORE \<Longrightarrow>
        cU (with_alpha_beta False g') True aU bU tU mv act (Some (with_alpha_beta False g)) = Inr ((v, x), tU') \<Longrightarrow>
        \<exists>r y tP'. cP (with_alpha_beta True g') True a b tP mv act (Some (with_alpha_beta True g)) = Inr ((r, y), tP') \<and>
                   fail_soft a b v r"
  shows "meP \<le> meU \<Longrightarrow> b \<le> meP \<Longrightarrow> a < b \<Longrightarrow> MIN_HEURISTIC_SCORE \<le> a \<Longrightarrow> b \<le> MAX_HEURISTIC_SCORE \<Longrightarrow>
     min_loop clock cU (with_alpha_beta False g) aU bU tU meU bmU moves = Inr ((v, x), tU') \<Longrightarrow>
     \<exists>r y tP'. min_loop clock cP (with_alpha_beta True g) a b tP meP bmP moves = Inr ((r, y), tP') \<and>
                fail_soft a b v r"
proof (induction moves arbitrary: meU meP b tU tP bmU bmP)
  case Nil
  then show ?case by (simp add: fail_soft_def)
next
  case (Cons move rest)
  have mtU: "max_time (options (with_alpha_beta False g)) = None"
    and mtP: "max_time (options (with_alpha_beta True g)) = None"
    using mt by simp_all
  from min_loop_Cons_Inr [OF mtU Cons.prems(6)] obtain action2 gcU rr v1 x1 t1 where
    d: "determine_action (with_alpha_beta False g) move = Inr action2"
    and p: "perform_move (with_alpha_beta False g) move = Inr (gcU, rr)"
    and c: "cU (next_turn gcU) True aU bU tU (Some move) (Some action2) (Some (with_alpha_beta False g)) =
              Inr ((v1, x1), t1)"
    and s: "(if alpha_beta (options (with_alpha_beta False g)) \<and> min bU v1 \<le> aU
      then Inr ((min meU v1, if v1 < meU then Some move else bmU), t1)
      else min_loop clock cU (with_alpha_beta False g) aU
             (if alpha_beta (options (with_alpha_beta False g)) then min bU v1 else bU) t1
             (min meU v1) (if v1 < meU then Some move else bmU) rest) = Inr ((v, x), tU')"
    by blast
  have restU: "min_loop clock cU (with_alpha_beta False g) aU bU t1 (min meU v1)
                 (if v1 < meU then Some move else bmU) rest = Inr ((v, x), tU')"
    using s by simp
  from perform_move_wab_Inr [OF p] obtain gc where
    gc: "perform_move g move = Inr (gc, rr)" and gcU: "gcU = with_alpha_beta False gc" by blast
  have mtc: "max_time (options (next_turn gc)) = None"
    using options_perform_move [OF gc] mt by simp
  have cU': "cU (with_alpha_beta False (next_turn gc)) True aU bU tU (Some move) (Some action2)
               (Some (with_alpha_beta False g)) = Inr ((v1, x1), t1)"
    using c by (simp add: gcU next_turn_wab)
  from child [OF mtc Cons.prems(3,4,5) cU', of tP] obtain r1 y1 t1P where
    cP': "cP (with_alpha_beta True (next_turn gc)) True a b tP (Some move) (Some action2)
            (Some (with_alpha_beta True g)) = Inr ((r1, y1), t1P)"
    and fs1: "fail_soft a b v1 r1" by blast
  have dP: "determine_action (with_alpha_beta True g) move = Inr action2"
    using d by simp
  have pP: "perform_move (with_alpha_beta True g) move = Inr (with_alpha_beta True gc, rr)"
    by (simp add: perform_move_wab gc)
  let ?bm = "if r1 < meP then Some move else bmP"
  have stepP: "min_loop clock cP (with_alpha_beta True g) a b tP meP bmP (move # rest) =
      (if min b r1 \<le> a then Inr ((min meP r1, ?bm), t1P)
       else min_loop clock cP (with_alpha_beta True g) a (min b r1) t1P (min meP r1) ?bm rest)"
    by (simp only: min_loop_step [OF mtP] dP pP next_turn_wab cP' sum.case prod.case
          with_alpha_beta_fields simp_thms if_True)
  have vle: "v \<le> min meU v1"
    using min_loop_le [OF mtU restU] .
  have fs1A: "r1 \<le> a \<Longrightarrow> v1 \<le> r1" and fs1B: "b \<le> r1 \<Longrightarrow> r1 \<le> v1"
    and fs1C: "a < r1 \<Longrightarrow> r1 < b \<Longrightarrow> r1 = v1"
    using fs1 unfolding fail_soft_def by blast+
  show ?case
  proof (cases "min b r1 \<le> a")
    case True
    then have ra: "r1 \<le> a" using Cons.prems(3) by linarith
    then have "v1 \<le> r1" by (rule fs1A)
    then have "fail_soft a b v (min meP r1)"
      using vle ra Cons.prems(1,2,3) unfolding fail_soft_def by linarith
    then show ?thesis unfolding stepP using True by simp
  next
    case False
    then have gt: "a < r1" by linarith
    have r1v1: "r1 \<le> v1"
    proof (cases "b \<le> r1")
      case True
      then show ?thesis by (rule fs1B)
    next
      case False
      then show ?thesis using fs1C gt by simp
    qed
    have pre1: "min meP r1 \<le> min meU v1" using Cons.prems(1) r1v1 by linarith
    have pre2: "min b r1 \<le> min meP r1" using Cons.prems(2) by linarith
    have pre3: "a < min b r1" using Cons.prems(3) gt by linarith
    have pre5: "min b r1 \<le> MAX_HEURISTIC_SCORE" using Cons.prems(5) by linarith
    from Cons.IH [OF pre1 pre2 pre3 Cons.prems(4) pre5 restU, of t1P ?bm]
    obtain r y tP' where
      loopP: "min_loop clock cP (with_alpha_beta True g) a (min b r1) t1P (min meP r1) ?bm rest =
                Inr ((r, y), tP')"
      and fs: "fail_soft a (min b r1) v r" by blast
    have rle: "r \<le> min meP r1" using min_loop_le [OF mtP loopP] .
    have fsA: "r \<le> a \<Longrightarrow> v \<le> r" and fsB: "min b r1 \<le> r \<Longrightarrow> r \<le> v"
      and fsC: "a < r \<Longrightarrow> r < min b r1 \<Longrightarrow> r = v"
      using fs unfolding fail_soft_def by blast+
    have "fail_soft a b v r"
      unfolding fail_soft_def
    proof (intro conjI impI)
      assume "r \<le> a"
      then show "v \<le> r" by (rule fsA)
    next
      assume "b \<le> r"
      then have "min b r1 \<le> r" by linarith
      then show "r \<le> v" by (rule fsB)
    next
      assume w: "a < r \<and> r < b"
      show "r = v"
      proof (cases "r < min b r1")
        case True
        then show ?thesis using fsC w by blast
      next
        case False
        then have ge: "min b r1 \<le> r" by linarith
        then have rv: "r \<le> v" by (rule fsB)
        have "r = r1" using ge w rle by linarith
        then have "r = v1" using fs1C w by blast
        then show ?thesis using rv vle by linarith
      qed
    qed
    then show ?thesis unfolding stepP using False loopP by simp
  qed
qed

lemma minimax_leaf_wab:
  "minimax_leaf (with_alpha_beta b g) tick move action (map_option (with_alpha_beta b') prev_state) =
   minimax_leaf g tick move action prev_state"
  by (simp add: minimax_leaf_def)

lemma fail_soft_refl: "fail_soft a b v v"
  by (simp add: fail_soft_def)

lemma minimax_refines:
  "max_time (options g) = None \<Longrightarrow> a < b \<Longrightarrow> MIN_HEURISTIC_SCORE \<le> a \<Longrightarrow> b \<le> MAX_HEURISTIC_SCORE \<Longrightarrow>
   minimax clock depth (with_alpha_beta False g) mp aU bU tU mv act (map_option (with_alpha_beta False) prev) =
     Inr ((v, x), tU') \<Longrightarrow>
   \<exists>r y tP'. minimax clock depth (with_alpha_beta True g) mp a b tP mv act (map_option (with_alpha_beta True) prev) =
     Inr ((r, y), tP') \<and> fail_soft a b v r"
proof (induction depth arbitrary: g a b mp aU bU tU tP mv act prev v x tU')
  case 0
  from "0.prems"(5) obtain s where s: "calculate_heuristic3 g mv act prev = Inr s" and v: "v = s"
    by (auto simp: minimax_leaf_wab minimax_leaf_def split: sum.splits)
  show ?case
    using s v by (simp add: minimax_leaf_wab minimax_leaf_def fail_soft_refl)
next
  case (Suc depth)
  show ?case
  proof (cases "is_finished g")
    case True
    from Suc.prems(5) True obtain s where s: "calculate_heuristic3 g mv act prev = Inr s" and v: "v = s"
      by (auto simp: minimax_leaf_wab minimax_leaf_def split: sum.splits)
    show ?thesis
      using s v True by (simp add: minimax_leaf_wab minimax_leaf_def fail_soft_refl)
  next
    case nf: False
    obtain ms where ms: "move_candidates g = Inr ms"
      using move_candidates_valid by blast
    have child: "\<exists>r y t. minimax clock depth (with_alpha_beta True g') mp' a' b' tP0 mv' act'
                     (Some (with_alpha_beta True g)) = Inr ((r, y), t) \<and> fail_soft a' b' v' r"
      if "max_time (options g') = None" "a' < b'" "MIN_HEURISTIC_SCORE \<le> a'" "b' \<le> MAX_HEURISTIC_SCORE"
        "minimax clock depth (with_alpha_beta False g') mp' aU' bU' tU0 mv' act'
           (Some (with_alpha_beta False g)) = Inr ((v', x'), tU1)"
      for g' a' b' aU' bU' tU0 tP0 mv' act' v' x' tU1 mp'
    proof -
      have "minimax clock depth (with_alpha_beta False g') mp' aU' bU' tU0 mv' act'
              (map_option (with_alpha_beta False) (Some g)) = Inr ((v', x'), tU1)"
        using that(5) by simp
      from Suc.IH [OF that(1-4) this]
      have "\<exists>r y t. minimax clock depth (with_alpha_beta True g') mp' a' b' tP0 mv' act'
              (map_option (with_alpha_beta True) (Some g)) = Inr ((r, y), t) \<and> fail_soft a' b' v' r" .
      then show ?thesis by simp
    qed
    show ?thesis
    proof (cases mp)
      case True
      from Suc.prems(5) nf ms True obtain bm where
        loopU: "max_loop clock (minimax clock depth) (with_alpha_beta False g) aU bU tU
                  MIN_HEURISTIC_SCORE None ms = Inr ((v, bm), tU')"
        by (auto split: sum.splits)
      have "\<exists>r y tP'. max_loop clock (minimax clock depth) (with_alpha_beta True g) a b tP
                MIN_HEURISTIC_SCORE None ms = Inr ((r, y), tP') \<and> fail_soft a b v r"
        apply (rule max_loop_refines [where cU = "minimax clock depth" and cP = "minimax clock depth",
              OF Suc.prems(1) _ _ Suc.prems(3) Suc.prems(2,3,4) loopU])
        subgoal by (rule child)
        by simp
      then obtain r y tP' where
        "max_loop clock (minimax clock depth) (with_alpha_beta True g) a b tP MIN_HEURISTIC_SCORE None ms =
           Inr ((r, y), tP')" "fail_soft a b v r"
        by blast
      then show ?thesis using nf ms True by simp
    next
      case False
      from Suc.prems(5) nf ms False obtain bm where
        loopU: "min_loop clock (minimax clock depth) (with_alpha_beta False g) aU bU tU
                  MAX_HEURISTIC_SCORE None ms = Inr ((v, bm), tU')"
        by (auto split: sum.splits)
      have "\<exists>r y tP'. min_loop clock (minimax clock depth) (with_alpha_beta True g) a b tP
                MAX_HEURISTIC_SCORE None ms = Inr ((r, y), tP') \<and> fail_soft a b v r"
        apply (rule min_loop_refines [where cU = "minimax clock depth" and cP = "minimax clock depth",
              OF Suc.prems(1) _ _ Suc.prems(4) Suc.prems(2,3,4) loopU])
        subgoal by (rule child)
        by simp
      then obtain r y tP' where
        "min_loop clock (minimax clock depth) (with_alpha_beta True g) a b tP MAX_HEURISTIC_SCORE None ms =
           Inr ((r, y), tP')" "fail_soft a b v r"
        by blast
      then show ?thesis using nf ms False by simp
    qed
  qed
qed

end
